theory Spec2Isabelle
  imports Main
begin

section \<open>Errors\<close>

text \<open>
  Go's \<open>error\<close> values of the two packages, as one datatype. A \<open>nil\<close> error is
  \<open>None\<close> of \<open>error option\<close>; a call returning \<open>(v, err)\<close> is \<open>error + 'v\<close>.
  \<^item> \<open>Opaque\<close>: an error value produced by a collaborator (database driver, HTTP
    client, gRPC client, JSON decoder), known only by its text;
  \<^item> \<open>AwsError code message\<close>: an \<open>awserr.Error\<close> of the cloud SDK;
  \<^item> \<open>Wrap e msg\<close>: \<open>errors.Wrap(e, msg)\<close> and \<open>errors.Wrapf\<close>;
  \<^item> \<open>StatusUnknown e\<close>: \<open>status.Error(codes.Unknown, e.Error())\<close>;
  \<^item> \<open>StillAssignedIPv6 l\<close>, \<open>StillAssignedIPv4 l\<close>, \<open>SourceOfTruthUnknown s\<close>,
    \<open>InvalidTask\<close>: the four \<open>fmt.Errorf\<close> values of the source;
  \<^item> \<open>MultiError es\<close>: a \<open>*multierror.Error\<close> holding \<open>es\<close>.
\<close>

datatype error =
    ErrNoRows
  | ContextCanceled
  | Opaque string
  | AwsError string string
  | Wrap error string
  | StatusUnknown error
  | HandledEC2 error
  | StillAssignedIPv6 nat
  | StillAssignedIPv4 nat
  | SourceOfTruthUnknown string
  | InvalidTask
  | MultiError "error list"

section \<open>The ledger: branch\_enis and branch\_eni\_attachments\<close>

text \<open>
  The two tables the DELETE statement of \<open>doDeleteExcessBranches\<close> reads and writes.
  The schema is not part of the sources; the columns are those the statement names:
  \<open>branch_enis(id, branch_eni, subnet_id)\<close> and \<open>branch_eni_attachments(branch_eni)\<close>.
\<close>

record branch_eni_row =
  id_col :: int
  branch_eni :: string
  subnet_id :: string

record db =
  branch_enis :: "branch_eni_row list"
  branch_eni_attachments :: "string list"

text \<open>
  Modelled from the spec: the table declarations are missing from the sources. The
  spec calls \<open>id\<close> an auto-increment ordering key and \<open>branch_eni\<close> the interface ID
  of the row, so both columns are keys of \<open>branch_enis\<close>: no two rows share a value.
\<close>

definition wf_db :: "db \<Rightarrow> bool" where
  "wf_db d \<longleftrightarrow>
     distinct (map id_col (branch_enis d)) \<and> distinct (map branch_eni (branch_enis d))"

text \<open>
  The inner SELECT up to its WHERE clause:
  \<^verbatim>\<open>
  SELECT branch_eni FROM branch_enis
  WHERE branch_eni NOT IN (SELECT branch_eni FROM branch_eni_attachments)
    AND subnet_id = $1
  \<close>
  (kept as whole rows: ORDER BY needs the \<open>id\<close> column).
\<close>

definition unattached :: "db \<Rightarrow> string \<Rightarrow> branch_eni_row list" where
  "unattached d subnetID =
     filter (\<lambda>r. branch_eni r \<notin> set (branch_eni_attachments d) \<and> subnet_id r = subnetID)
       (branch_enis d)"

text \<open>\<^verbatim>\<open>ORDER BY id DESC LIMIT 1 OFFSET $2\<close>, projected on \<open>branch_eni\<close>.\<close>

definition excess_select :: "db \<Rightarrow> string \<Rightarrow> nat \<Rightarrow> string list" where
  "excess_select d subnetID poolTarget =
     map branch_eni (take 1 (drop poolTarget (rev (sort_key id_col (unattached d subnetID)))))"

text \<open>
  The whole statement,
  \<^verbatim>\<open>DELETE FROM branch_enis WHERE branch_eni IN (...) RETURNING branch_eni\<close>,
  run inside the open transaction: the rows it returns (the deleted rows' \<open>branch_eni\<close>)
  and the tables afterwards. \<open>row.Scan\<close> reads the first returned row.
\<close>

definition delete_returning :: "db \<Rightarrow> string \<Rightarrow> nat \<Rightarrow> string list \<times> db" where
  "delete_returning d subnetID poolTarget =
     (let sel = excess_select d subnetID poolTarget;
          deleted = filter (\<lambda>r. branch_eni r \<in> set sel) (branch_enis d);
          kept = filter (\<lambda>r. branch_eni r \<notin> set sel) (branch_enis d)
      in (map branch_eni deleted, d\<lparr>branch_enis := kept\<rparr>))"

text \<open>
  The statement as \<open>doDeleteExcessBranches\<close> uses it (the spec's
  \<open>selectAndDeleteExcessBranch\<close>): the interface ID of the first returned row, or none
  when the statement returned no row, and the transaction's view of the tables.
\<close>

definition selectAndDeleteExcessBranch :: "db \<Rightarrow> string \<Rightarrow> nat \<Rightarrow> string option \<times> db" where
  "selectAndDeleteExcessBranch d subnetID poolTarget =
     (case delete_returning d subnetID poolTarget of
        ([], d') \<Rightarrow> (None, d')
      | (branchENI # _, d') \<Rightarrow> (Some branchENI, d'))"

section \<open>The cloud gateway\<close>

text \<open>
  What \<open>doDeleteExcessBranches\<close> reads of a described interface, and the two
  operations of an EC2 session it calls. What the cloud answers is not decided by this
  code, so a session carries the answers: one per interface ID.
\<close>

record iface =
  Ipv6Addresses :: "string list"
  PrivateIpAddresses :: "string list"

record session =
  GetNetworkInterfaceByID :: "string \<Rightarrow> error + iface"
  DeleteNetworkInterface :: "string \<Rightarrow> error option"

text \<open>
  Modelled from the spec: package \<open>ec2wrapper\<close> is not part of the sources. Its error
  classification "must expose an already-not-found case distinctly from other errors":
  \<open>RetrieveEC2Error\<close> gives the SDK error inside an error value, if it is one, \<open>Code\<close>
  its code, and \<open>InvalidNetworkInterfaceIDNotFound\<close> is the provider's code for an
  interface that does not exist. \<open>HandleEC2Error\<close> classifies a provider error and
  returns it typed; it is only called here on an error that is not \<open>nil\<close>.
\<close>

definition InvalidNetworkInterfaceIDNotFound :: string where
  "InvalidNetworkInterfaceIDNotFound = ''InvalidNetworkInterfaceID.NotFound''"

fun RetrieveEC2Error :: "error \<Rightarrow> error option" where
  "RetrieveEC2Error (AwsError c m) = Some (AwsError c m)"
| "RetrieveEC2Error _ = None"

fun Code :: "error \<Rightarrow> string" where
  "Code (AwsError c m) = c"
| "Code _ = []"

definition HandleEC2Error :: "error \<Rightarrow> error" where
  "HandleEC2Error err = HandledEC2 err"

section \<open>The excess-branch reclaimer\<close>

type_synonym duration = int

definition Second :: duration where
  "Second = 1000000000"

definition Minute :: duration where
  "Minute = 60 * Second"

definition warmPoolPerSubnet :: nat where
  "warmPoolPerSubnet = 50"

definition timeBetweenErrors :: duration where
  "timeBetweenErrors = 10 * Second"

definition timeBetweenNoDeletions :: duration where
  "timeBetweenNoDeletions = 2 * Minute"

definition timeBetweenDeletions :: duration where
  "timeBetweenDeletions = 5 * Second"

definition deleteExcessBranchENITimeout :: duration where
  "deleteExcessBranchENITimeout = 30 * Second"

record subnet =
  az :: string
  vpcID :: string
  accountID :: string
  subnetID :: string
  cidr :: string
  region :: string

text \<open>
  What the collaborators of one cycle answer: the session lookup (by account and
  region), \<open>db.BeginTx\<close>, the statement itself (a failure of the query other than
  finding no row: lost connection, deadline), and \<open>tx.Commit\<close>.
\<close>

record cycle_env =
  GetSessionFromAccountAndRegion :: "string \<times> string \<Rightarrow> error + session"
  BeginTx :: "error option"
  QueryRowContext :: "error option"
  Commit :: "error option"

text \<open>
  \<open>row.Scan(&branchENI)\<close>: the query's own failure, else \<open>sql.ErrNoRows\<close> when the
  statement returned no row, else the first returned row.
\<close>

definition Scan :: "error option \<Rightarrow> string option \<Rightarrow> error + string" where
  "Scan failure returned =
     (case failure of
        Some err \<Rightarrow> Inl err
      | None \<Rightarrow> (case returned of None \<Rightarrow> Inl ErrNoRows | Some branchENI \<Rightarrow> Inr branchENI))"

text \<open>
  One cycle. The result is the ledger afterwards and the pair \<open>(bool, error)\<close> the Go
  function returns. The statement runs on the transaction's view \<open>tx\<close> of the ledger;
  the ledger itself becomes \<open>tx\<close> only where \<open>tx.Commit()\<close> has succeeded, and every
  other return leaves it as it was (the deferred \<open>tx.Rollback()\<close>).
\<close>

definition doDeleteExcessBranches :: "cycle_env \<Rightarrow> db \<Rightarrow> subnet \<Rightarrow> db \<times> bool \<times> error option" where
  "doDeleteExcessBranches env d sn =
     (case GetSessionFromAccountAndRegion env (accountID sn, region sn) of
        Inl err \<Rightarrow> (d, False, Some (Wrap err ''Cannot get EC2 session''))
      | Inr session \<Rightarrow>
     (case BeginTx env of
        Some err \<Rightarrow>
          (d, False, Some (StatusUnknown (Wrap err ''Could not start database transaction'')))
      | None \<Rightarrow>
     (case selectAndDeleteExcessBranch d (subnetID sn) warmPoolPerSubnet of (returned, tx) \<Rightarrow>
     (case Scan (QueryRowContext env) returned of
        Inl err \<Rightarrow>
          if err = ErrNoRows then (d, False, None)
          else (d, False, Some (Wrap err ''Cannot scan branch ENI to delete''))
      | Inr branchENI \<Rightarrow>
     (case GetNetworkInterfaceByID session branchENI of
        Inl err \<Rightarrow> (d, False, Some (Wrap err ''Could not describe network interface''))
      | Inr iface \<Rightarrow>
          if length (Ipv6Addresses iface) > 0
          then (d, False, Some (StillAssignedIPv6 (length (Ipv6Addresses iface))))
          else if length (PrivateIpAddresses iface) > 1
          then (d, False, Some (StillAssignedIPv4 (length (PrivateIpAddresses iface))))
          else
     (case Commit env of
        Some err \<Rightarrow> (d, False, Some (Wrap err ''Cannot commit transaction''))
      | None \<Rightarrow>
     (case DeleteNetworkInterface session branchENI of
        Some err \<Rightarrow>
          (case RetrieveEC2Error err of
             Some awsErr \<Rightarrow>
               if Code awsErr = InvalidNetworkInterfaceIDNotFound then (tx, True, None)
               else (tx, False, Some (HandleEC2Error err))
           | None \<Rightarrow> (tx, False, Some (HandleEC2Error err)))
      | None \<Rightarrow> (tx, True, None))))))))"

text \<open>
  Modelled from the spec: \<open>waitFor\<close> is declared in a file of package \<open>service\<close> that is
  not part of the sources. It is the timed wait between two cycles, bound to the loop's
  context: it lasts the delay it is given unless the context is cancelled first, and
  only then does it return an error (the context's), which is what stops the loop.
\<close>

definition waitFor :: "bool \<Rightarrow> duration \<Rightarrow> error option" where
  "waitFor ctx_cancelled d = (if ctx_cancelled then Some ContextCanceled else None)"

text \<open>
  One iteration of \<open>deleteExccessBranchesLoop\<close> meets the collaborators of its cycle
  and then waits; \<open>ctx_done\<close> says whether the context is cancelled before that wait
  is over.
\<close>

record iteration =
  cycle :: cycle_env
  ctx_done :: bool

text \<open>
  The loop has no exit but \<open>return err\<close> after \<open>waitFor\<close>. It is run on the
  iterations the environment supplies: \<open>Returned err\<close> is the Go function's return value,
  \<open>StillLooping\<close> says that it has not returned when the supplied iterations are used up.
  The trace lists, for every cycle that ran, what \<open>doDeleteExcessBranches\<close> returned and
  the \<open>resetTime\<close> then handed to \<open>waitFor\<close>.
\<close>

datatype loop_result = StillLooping | Returned "error option"

fun deleteExccessBranchesLoop ::
  "iteration list \<Rightarrow> db \<Rightarrow> subnet \<Rightarrow> db \<times> ((bool \<times> error option) \<times> duration) list \<times> loop_result" where
  "deleteExccessBranchesLoop [] d item = (d, [], StillLooping)"
| "deleteExccessBranchesLoop (it # its) d item =
     (case doDeleteExcessBranches (cycle it) d item of (d', branchesDeleted, err) \<Rightarrow>
        (let resetTime =
               (if err \<noteq> None then timeBetweenErrors
                else if branchesDeleted then timeBetweenDeletions
                else timeBetweenNoDeletions)
         in case waitFor (ctx_done it) resetTime of
              Some err' \<Rightarrow> (d', [((branchesDeleted, err), resetTime)], Returned (Some err'))
            | None \<Rightarrow>
                (case deleteExccessBranchesLoop its d' item of (d'', trace, r) \<Rightarrow>
                   (d'', ((branchesDeleted, err), resetTime) # trace, r))))"

section \<open>Garbage collection of stale assignments (package gc3)\<close>

record Args =
  KubernetesPodsURL :: string
  MesosStateURL :: string
  SourceOfTruth :: string

text \<open>
  Modelled from the spec: the declaration of \<open>State\<close> is missing from the sources. The
  legacy scheduler's state document is "nested frameworks, executors, tasks, each task
  exposing a name used as the task ID"; the loops of \<open>parseMesosTasksBody\<close> read these
  fields and no other.
\<close>

record mesos_task =
  Name :: string

record mesos_executor =
  Tasks :: "mesos_task list"

record mesos_framework =
  Executors :: "mesos_executor list"

record State =
  Frameworks :: "mesos_framework list"

text \<open>
  Values this code only passes on, each standing for its serialised form: the node's
  instance identity, a pod record, an assignment of the remote service and the
  allocation descriptor made from it.
\<close>

type_synonym instance_identity = string
type_synonym pod = string
type_synonym assignment = string
type_synonym allocation = string

record GCRequestV3 =
  InstanceIdentity :: instance_identity
  Soft :: bool
  RunningTaskIDs :: "string list"

text \<open>
  What the collaborators of one GC cycle answer: the identity provider, the HTTP GET of
  a URL (\<open>shared.Get\<close>), the two decoders (\<open>shared.ToPodList\<close> with \<open>shared.PodKey\<close>,
  and \<open>json.Unmarshal\<close> into a \<open>State\<close>), the three calls of the remote allocation
  service, and the local teardown (\<open>shared.AssignmentToAllocation\<close>,
  \<open>container2.TeardownNetwork\<close>). Within one cycle an answer depends on the request
  only: the same request gets the same answer.
\<close>

record gc_env =
  GetIdentity :: "error + instance_identity"
  Get :: "string \<Rightarrow> error + string"
  ToPodList :: "string \<Rightarrow> error + pod list"
  PodKey :: "pod \<Rightarrow> string"
  json_Unmarshal :: "string \<Rightarrow> error + State"
  GCV3 :: "GCRequestV3 \<Rightarrow> error + string list"
  GetAssignment :: "string \<Rightarrow> error + assignment"
  AssignmentToAllocation :: "assignment \<Rightarrow> allocation"
  TeardownNetwork :: "allocation \<Rightarrow> error option"
  UnassignIPV3 :: "string \<Rightarrow> error option"

text \<open>
  The calls a cycle makes to the remote allocation service and to the local teardown,
  in the order it makes them.
\<close>

datatype call =
    CallGCV3 GCRequestV3
  | CallGetAssignment string
  | CallTeardownNetwork allocation
  | CallUnassignIPV3 string

definition parseKubernetesTasksBody :: "gc_env \<Rightarrow> string \<Rightarrow> error + string list" where
  "parseKubernetesTasksBody env body =
     (case ToPodList env body of
        Inl err \<Rightarrow> Inl (Wrap err ''Could not decode body to podlist'')
      | Inr podList \<Rightarrow> Inr (map (PodKey env) podList))"

definition kubernetesTasks :: "gc_env \<Rightarrow> string \<Rightarrow> error + string list" where
  "kubernetesTasks env url =
     (case Get env url of
        Inl err \<Rightarrow> Inl (Wrap err ''Could not fetch task body from Kubelet'')
      | Inr body \<Rightarrow> parseKubernetesTasksBody env body)"

text \<open>
  The three nested \<open>range\<close> loops of \<open>parseMesosTasksBody\<close>, innermost first; \<open>tasks\<close>
  is the slice being appended to, and the \<open>return nil, fmt.Errorf(...)\<close> of the
  innermost loop leaves all three.
\<close>

fun tasks_loop :: "mesos_task list \<Rightarrow> string list \<Rightarrow> error + string list" where
  "tasks_loop [] tasks = Inr tasks"
| "tasks_loop (task # rest) tasks =
     (if Name task = [] then Inl InvalidTask else tasks_loop rest (tasks @ [Name task]))"

fun executors_loop :: "mesos_executor list \<Rightarrow> string list \<Rightarrow> error + string list" where
  "executors_loop [] tasks = Inr tasks"
| "executors_loop (executor # rest) tasks =
     (case tasks_loop (Tasks executor) tasks of
        Inl err \<Rightarrow> Inl err
      | Inr tasks' \<Rightarrow> executors_loop rest tasks')"

fun frameworks_loop :: "mesos_framework list \<Rightarrow> string list \<Rightarrow> error + string list" where
  "frameworks_loop [] tasks = Inr tasks"
| "frameworks_loop (framework # rest) tasks =
     (case executors_loop (Executors framework) tasks of
        Inl err \<Rightarrow> Inl err
      | Inr tasks' \<Rightarrow> frameworks_loop rest tasks')"

definition parseMesosTasksBody :: "gc_env \<Rightarrow> string \<Rightarrow> error + string list" where
  "parseMesosTasksBody env body =
     (case json_Unmarshal env body of
        Inl err \<Rightarrow> Inl (Wrap err ''Unable to unmarshal state'')
      | Inr state \<Rightarrow> frameworks_loop (Frameworks state) [])"

definition mesosTasks :: "gc_env \<Rightarrow> string \<Rightarrow> error + string list" where
  "mesosTasks env url =
     (case Get env url of
        Inl err \<Rightarrow> Inl (Wrap err ''Could not fetch task body from Kubelet'')
      | Inr body \<Rightarrow> parseMesosTasksBody env body)"

text \<open>The \<open>switch args.SourceOfTruth\<close> of \<open>GC\<close>.\<close>

definition runningTaskIDs :: "gc_env \<Rightarrow> Args \<Rightarrow> error + string list" where
  "runningTaskIDs env args =
     (if SourceOfTruth args = ''kubernetes'' then kubernetesTasks env (KubernetesPodsURL args)
      else if SourceOfTruth args = ''mesos'' then mesosTasks env (MesosStateURL args)
      else Inl (SourceOfTruthUnknown (SourceOfTruth args)))"

text \<open>
  The loop over \<open>resp.RemovedAssignments\<close>. The accumulator is the calls made so far
  and \<open>result\<close>, the errors appended so far (\<open>multierror.Append\<close>); a \<open>continue\<close> is
  the recursive call on the rest of the list.
\<close>

fun removeAssignments ::
  "gc_env \<Rightarrow> string list \<Rightarrow> call list \<times> error list \<Rightarrow> call list \<times> error list" where
  "removeAssignments env [] acc = acc"
| "removeAssignments env (taskID # rest) (calls, result) =
     (case GetAssignment env taskID of
        Inl err \<Rightarrow>
          removeAssignments env rest
            (calls @ [CallGetAssignment taskID],
             result @ [Wrap err (''Unable to get assignment '' @ taskID)])
      | Inr assignment \<Rightarrow>
          (let allocation = AssignmentToAllocation env assignment in
           case TeardownNetwork env allocation of
             Some err \<Rightarrow>
               removeAssignments env rest
                 (calls @ [CallGetAssignment taskID, CallTeardownNetwork allocation],
                  result @ [Wrap err (''Unable to tear down network '' @ taskID)])
           | None \<Rightarrow>
               (case UnassignIPV3 env taskID of
                  Some err \<Rightarrow>
                    removeAssignments env rest
                      (calls @ [CallGetAssignment taskID, CallTeardownNetwork allocation,
                                CallUnassignIPV3 taskID],
                       result @ [Wrap err (''Unable to unassign from vpc service '' @ taskID)])
                | None \<Rightarrow>
                    removeAssignments env rest
                      (calls @ [CallGetAssignment taskID, CallTeardownNetwork allocation,
                                CallUnassignIPV3 taskID],
                       result))))"

text \<open>\<open>result.ErrorOrNil()\<close>: \<open>nil\<close> when nothing was appended.\<close>

definition ErrorOrNil :: "error list \<Rightarrow> error option" where
  "ErrorOrNil result = (if result = [] then None else Some (MultiError result))"

text \<open>One cycle of \<open>GC\<close>: the calls it made and the error it returns.\<close>

definition GC :: "gc_env \<Rightarrow> Args \<Rightarrow> call list \<times> error option" where
  "GC env args =
     (case GetIdentity env of
        Inl err \<Rightarrow> ([], Some (Wrap err ''Unable to get instance identity''))
      | Inr instanceIdentity \<Rightarrow>
     (case runningTaskIDs env args of
        Inl err \<Rightarrow> ([], Some (Wrap err ''Could not fetch running tasks''))
      | Inr tasks \<Rightarrow>
          (let req = \<lparr>InstanceIdentity = instanceIdentity, Soft = True, RunningTaskIDs = tasks\<rparr>
           in case GCV3 env req of
                Inl err \<Rightarrow> ([CallGCV3 req], Some (Wrap err ''Cannot call API to perform GC''))
              | Inr removedAssignments \<Rightarrow>
                  (case removeAssignments env removedAssignments ([CallGCV3 req], []) of
                     (calls, result) \<Rightarrow> (calls, ErrorOrNil result)))))"

section \<open>Notions used to state the properties\<close>

text \<open>
  A list is in strictly descending order of a key: the order \<^verbatim>\<open>ORDER BY id DESC\<close> gives
  rows whose \<open>id\<close> values differ.
\<close>

definition strict_desc :: "('a \<Rightarrow> int) \<Rightarrow> 'a list \<Rightarrow> bool" where
  "strict_desc f ys \<longleftrightarrow> (\<forall>i j. i < j \<and> j < length ys \<longrightarrow> f (ys ! j) < f (ys ! i))"

definition ordered_unattached :: "db \<Rightarrow> string \<Rightarrow> branch_eni_row list" where
  "ordered_unattached d s = rev (sort_key id_col (unattached d s))"

text \<open>The number of unattached branch interfaces of a subnet: its warm pool and excess.\<close>

definition pool_size :: "db \<Rightarrow> string \<Rightarrow> nat" where
  "pool_size d s = length (unattached d s)"

text \<open>
  A cycle that is able to make progress on the ledger it meets: its session, its
  transaction, its statement and its commit succeed, and the cloud describes the
  interface the statement selected, if it selected one, with no IPv6 address and at
  most one IPv4 address. What the cloud answers about other interfaces, and what its
  delete answers (it is called after the commit), plays no part.
\<close>

definition makes_progress :: "cycle_env \<Rightarrow> db \<Rightarrow> subnet \<Rightarrow> bool" where
  "makes_progress env d sn =
     (case GetSessionFromAccountAndRegion env (accountID sn, region sn) of
        Inl err \<Rightarrow> False
      | Inr session \<Rightarrow>
          BeginTx env = None \<and> QueryRowContext env = None \<and> Commit env = None \<and>
          (case fst (selectAndDeleteExcessBranch d (subnetID sn) warmPoolPerSubnet) of
             None \<Rightarrow> True
           | Some branchENI \<Rightarrow>
               (case GetNetworkInterfaceByID session branchENI of
                  Inl err \<Rightarrow> False
                | Inr iface \<Rightarrow>
                    Ipv6Addresses iface = [] \<and> length (PrivateIpAddresses iface) \<le> 1)))"

text \<open>
  The number of cycles of a run of the loop that are able to make progress, each on
  the ledger the cycles before it left. The cycle of the iteration whose wait is
  cancelled is the last one that runs.
\<close>

fun progress_cycles :: "iteration list \<Rightarrow> db \<Rightarrow> subnet \<Rightarrow> nat" where
  "progress_cycles [] d item = 0"
| "progress_cycles (it # its) d item =
     (if makes_progress (cycle it) d item then 1 else 0) +
     (if ctx_done it then 0
      else progress_cycles its (fst (doDeleteExcessBranches (cycle it) d item)) item)"

text \<open>A state document with a task entry whose name is the empty string.\<close>

definition has_unnamed_task :: "State \<Rightarrow> bool" where
  "has_unnamed_task state \<longleftrightarrow>
     (\<exists>framework \<in> set (Frameworks state). \<exists>executor \<in> set (Executors framework).
        \<exists>task \<in> set (Tasks executor). Name task = [])"

text \<open>All three steps for a task ID succeed: fetch, local teardown, unassign.\<close>

definition item_ok :: "gc_env \<Rightarrow> string \<Rightarrow> bool" where
  "item_ok env taskID =
     (case GetAssignment env taskID of
        Inl err \<Rightarrow> False
      | Inr assignment \<Rightarrow>
          TeardownNetwork env (AssignmentToAllocation env assignment) = None \<and>
          UnassignIPV3 env taskID = None)"

section \<open>Concrete inputs\<close>

text \<open>
  A small ledger: four interfaces in \<open>subnet-1\<close>, of which \<open>eni-c\<close> is attached, and one
  interface in \<open>subnet-2\<close>.
\<close>

definition example_db :: db where
  "example_db =
     \<lparr>branch_enis =
        [\<lparr>id_col = 1, branch_eni = ''eni-a'', subnet_id = ''subnet-1''\<rparr>,
         \<lparr>id_col = 2, branch_eni = ''eni-b'', subnet_id = ''subnet-1''\<rparr>,
         \<lparr>id_col = 3, branch_eni = ''eni-c'', subnet_id = ''subnet-1''\<rparr>,
         \<lparr>id_col = 4, branch_eni = ''eni-d'', subnet_id = ''subnet-2''\<rparr>,
         \<lparr>id_col = 5, branch_eni = ''eni-e'', subnet_id = ''subnet-1''\<rparr>],
      branch_eni_attachments = [''eni-c'']\<rparr>"

text \<open>
  A ledger with \<open>n\<close> unattached interfaces in \<open>subnet-1\<close>, numbered from 0; the
  interface numbered \<open>i\<close> is named \<open>eni-\<close> followed by \<open>i\<close> strokes.
\<close>

definition pool_row :: "nat \<Rightarrow> branch_eni_row" where
  "pool_row i =
     \<lparr>id_col = int i, branch_eni = ''eni-'' @ replicate i (CHR ''|''), subnet_id = ''subnet-1''\<rparr>"

definition pool_db :: "nat \<Rightarrow> db" where
  "pool_db n = \<lparr>branch_enis = map pool_row [0..<n], branch_eni_attachments = []\<rparr>"

definition example_subnet :: subnet where
  "example_subnet =
     \<lparr>az = ''us-east-1a'', vpcID = ''vpc-1'', accountID = ''123456789012'',
      subnetID = ''subnet-1'', cidr = ''10.0.0.0/24'', region = ''us-east-1''\<rparr>"

text \<open>
  Sessions: one whose interfaces carry only their primary IPv4 address and whose
  delete succeeds, one that still shows an IPv6 address, and two whose delete fails:
  with the not-found code, and with another.
\<close>

definition clean_iface :: iface where
  "clean_iface = \<lparr>Ipv6Addresses = [], PrivateIpAddresses = [''10.0.0.5'']\<rparr>"

definition clean_session :: session where
  "clean_session =
     \<lparr>GetNetworkInterfaceByID = (\<lambda>eni. Inr clean_iface), DeleteNetworkInterface = (\<lambda>eni. None)\<rparr>"

definition ipv6_iface :: iface where
  "ipv6_iface = \<lparr>Ipv6Addresses = [''2001:db8::1''], PrivateIpAddresses = [''10.0.0.5'']\<rparr>"

definition ipv6_session :: session where
  "ipv6_session =
     \<lparr>GetNetworkInterfaceByID = (\<lambda>eni. Inr ipv6_iface), DeleteNetworkInterface = (\<lambda>eni. None)\<rparr>"

definition gone_session :: session where
  "gone_session =
     \<lparr>GetNetworkInterfaceByID = (\<lambda>eni. Inr clean_iface),
      DeleteNetworkInterface =
        (\<lambda>eni. Some (AwsError ''InvalidNetworkInterfaceID.NotFound'' ''does not exist''))\<rparr>"

definition throttled_session :: session where
  "throttled_session =
     \<lparr>GetNetworkInterfaceByID = (\<lambda>eni. Inr clean_iface),
      DeleteNetworkInterface = (\<lambda>eni. Some (AwsError ''RequestLimitExceeded'' ''slow down''))\<rparr>"

definition env_with :: "session \<Rightarrow> cycle_env" where
  "env_with s =
     \<lparr>GetSessionFromAccountAndRegion = (\<lambda>key. Inr s), BeginTx = None,
      QueryRowContext = None, Commit = None\<rparr>"

definition failing_env :: cycle_env where
  "failing_env =
     \<lparr>GetSessionFromAccountAndRegion = (\<lambda>key. Inl (Opaque ''no credentials'')), BeginTx = None,
      QueryRowContext = None, Commit = None\<rparr>"

definition quiet_iteration :: iteration where
  "quiet_iteration = \<lparr>cycle = env_with clean_session, ctx_done = False\<rparr>"

definition failing_iteration :: iteration where
  "failing_iteration = \<lparr>cycle = failing_env, ctx_done = False\<rparr>"

definition cancelled_iteration :: iteration where
  "cancelled_iteration = \<lparr>cycle = env_with clean_session, ctx_done = True\<rparr>"

text \<open>
  A session that describes the interface \<open>eni-\<close> clean and every other interface with
  an IPv6 address.
\<close>

definition picky_session :: session where
  "picky_session =
     \<lparr>GetNetworkInterfaceByID = (\<lambda>eni. if eni = ''eni-'' then Inr clean_iface else Inr ipv6_iface),
      DeleteNetworkInterface = (\<lambda>eni. None)\<rparr>"

definition picky_iteration :: iteration where
  "picky_iteration = \<lparr>cycle = env_with picky_session, ctx_done = False\<rparr>"

definition stuck_iteration :: iteration where
  "stuck_iteration = \<lparr>cycle = env_with ipv6_session, ctx_done = False\<rparr>"

text \<open>
  A node whose orchestrator lists the pods \<open>A\<close> and \<open>B\<close> and whose legacy scheduler's
  document holds a task without a name; the remote service reports the assignments of
  \<open>C\<close>, \<open>D\<close>, \<open>E\<close> and \<open>F\<close> as stale; the local teardown fails for \<open>C\<close>, the
  fetch of the assignment for \<open>E\<close> and the unassign for \<open>F\<close>.
\<close>

definition example_state :: State where
  "example_state =
     \<lparr>Frameworks =
        [\<lparr>Executors = [\<lparr>Tasks = [\<lparr>Name = ''A''\<rparr>, \<lparr>Name = []\<rparr>, \<lparr>Name = ''B''\<rparr>]\<rparr>]\<rparr>]\<rparr>"

definition example_gc_env :: gc_env where
  "example_gc_env =
     \<lparr>GetIdentity = Inr ''i-0123'',
      Get = (\<lambda>url. Inr url),
      ToPodList = (\<lambda>body. Inr [''A'', ''B'']),
      PodKey = (\<lambda>pod. pod),
      json_Unmarshal = (\<lambda>body. Inr example_state),
      GCV3 = (\<lambda>req. Inr [''C'', ''D'', ''E'', ''F'']),
      GetAssignment = (\<lambda>taskID. if taskID = ''E'' then Inl (Opaque ''no such task'') else Inr taskID),
      AssignmentToAllocation = (\<lambda>assignment. assignment),
      TeardownNetwork = (\<lambda>allocation. if allocation = ''C'' then Some (Opaque ''busy'') else None),
      UnassignIPV3 = (\<lambda>taskID. if taskID = ''F'' then Some (Opaque ''unavailable'') else None)\<rparr>"

definition kubernetes_args :: Args where
  "kubernetes_args =
     \<lparr>KubernetesPodsURL = ''http://localhost:10255/pods'',
      MesosStateURL = ''http://localhost:5051/state'', SourceOfTruth = ''kubernetes''\<rparr>"

definition mesos_args :: Args where
  "mesos_args = kubernetes_args\<lparr>SourceOfTruth := ''mesos''\<rparr>"

definition unknown_args :: Args where
  "unknown_args = kubernetes_args\<lparr>SourceOfTruth := ''nomad''\<rparr>"

section \<open>Properties of the DELETE statement\<close>

subsection \<open>Rows in descending order of a key\<close>

lemma asc_nth_less:
  fixes f :: "'a \<Rightarrow> int"
  assumes "sorted (map f xs)" "distinct (map f xs)" "i < j" "j < length xs"
  shows "f (xs ! i) < f (xs ! j)"
proof -
  have "map f xs ! i \<le> map f xs ! j"
    using assms(1,3,4) by (intro sorted_nth_mono) simp_all
  moreover have "map f xs ! i \<noteq> map f xs ! j"
    using assms(2,3,4) nth_eq_iff_index_eq[of "map f xs" i j] by simp
  ultimately show ?thesis using assms(3,4) by simp
qed

lemma strict_desc_rev:
  fixes f :: "'a \<Rightarrow> int"
  assumes "sorted (map f xs)" "distinct (map f xs)"
  shows "strict_desc f (rev xs)"
  unfolding strict_desc_def
proof (intro allI impI)
  fix i j assume ij: "i < j \<and> j < length (rev xs)"
  have "f (xs ! (length xs - Suc j)) < f (xs ! (length xs - Suc i))"
  proof (rule asc_nth_less[OF assms])
    show "length xs - Suc j < length xs - Suc i" using ij by simp arith
    show "length xs - Suc i < length xs" using ij by simp arith
  qed
  thus "f (rev xs ! j) < f (rev xs ! i)" using ij by (simp add: rev_nth)
qed

lemma strict_desc_greater_set:
  fixes f :: "'a \<Rightarrow> int"
  assumes sd: "strict_desc f ys" and n: "n < length ys"
  shows "{y \<in> set ys. f (ys ! n) < f y} = set (take n ys)"
proof (intro set_eqI iffI)
  fix y assume "y \<in> {y \<in> set ys. f (ys ! n) < f y}"
  then have "y \<in> set ys" and gt: "f (ys ! n) < f y" by simp_all
  then obtain k where k: "k < length ys" "ys ! k = y"
    by (auto simp: in_set_conv_nth)
  have "k < n"
  proof (rule ccontr)
    assume "\<not> k < n"
    then consider "k = n" | "n < k" by linarith
    then show False
    proof cases
      case 1 then show ?thesis using gt k by simp
    next
      case 2 then show ?thesis using sd gt k unfolding strict_desc_def by fastforce
    qed
  qed
  then show "y \<in> set (take n ys)" using k n by (auto simp: in_set_conv_nth)
next
  fix y assume "y \<in> set (take n ys)"
  then obtain k where k: "k < n" "ys ! k = y" using n
    by (auto simp: in_set_conv_nth)
  have "f (ys ! n) < f (ys ! k)" using sd k(1) n unfolding strict_desc_def by blast
  moreover have "y \<in> set ys" using k n by (metis nth_mem order.strict_trans)
  ultimately show "y \<in> {y \<in> set ys. f (ys ! n) < f y}" using k by simp
qed

lemma strict_desc_distinct:
  fixes f :: "'a \<Rightarrow> int"
  assumes "strict_desc f ys" shows "distinct ys"
  unfolding distinct_conv_nth
proof (intro allI impI)
  fix i j assume "i < length ys" "j < length ys" "i \<noteq> j"
  then consider "i < j" | "j < i" by linarith
  then show "ys ! i \<noteq> ys ! j"
  proof cases
    case 1 then show ?thesis using assms \<open>j < length ys\<close> unfolding strict_desc_def by fastforce
  next
    case 2 then show ?thesis using assms \<open>i < length ys\<close> unfolding strict_desc_def by fastforce
  qed
qed

lemma strict_desc_greater_card:
  fixes f :: "'a \<Rightarrow> int"
  assumes "strict_desc f ys" "n < length ys"
  shows "card {y \<in> set ys. f (ys ! n) < f y} = n"
proof -
  have "card (set (take n ys)) = n"
    using strict_desc_distinct[OF assms(1)] assms(2) by (simp add: distinct_card)
  then show ?thesis using strict_desc_greater_set[OF assms] by simp
qed

subsection \<open>Rows with a key column\<close>

lemma filter_key_eq:
  assumes "distinct (map g xs)" "r \<in> set xs"
  shows "filter (\<lambda>x. g x = g r) xs = [r] \<and> filter (\<lambda>x. g x \<noteq> g r) xs = remove1 r xs"
  using assms
proof (induction xs)
  case Nil then show ?case by simp
next
  case (Cons a xs)
  show ?case
  proof (cases "a = r")
    case True
    have "\<forall>x\<in>set xs. g x \<noteq> g r" using Cons.prems(1) True by (auto simp: image_iff)
    then have "filter (\<lambda>x. g x = g r) xs = []" "filter (\<lambda>x. g x \<noteq> g r) xs = xs"
      by (simp_all add: filter_empty_conv filter_id_conv)
    then show ?thesis using True by simp
  next
    case False
    then have r: "r \<in> set xs" using Cons.prems(2) by simp
    have "g a \<noteq> g r" using Cons.prems(1) r by auto
    moreover have "distinct (map g xs)" using Cons.prems(1) by simp
    ultimately show ?thesis using Cons.IH r False by simp
  qed
qed

lemma distinct_map_remove1: "distinct (map f xs) \<Longrightarrow> distinct (map f (remove1 r xs))"
proof (induction xs)
  case Nil then show ?case by simp
next
  case (Cons a xs)
  have "f a \<notin> f ` set (remove1 r xs)" using Cons.prems set_remove1_subset[of r xs] by auto
  then show ?case using Cons by simp
qed

lemma wf_db_remove1:
  "wf_db d \<Longrightarrow> wf_db (d\<lparr>branch_enis := remove1 r (branch_enis d)\<rparr>)"
  by (simp add: wf_db_def distinct_map_remove1)

subsection \<open>The selected row\<close>

lemma excess_select_unfold:
  "excess_select d s n = map branch_eni (take 1 (drop n (ordered_unattached d s)))"
  by (simp add: excess_select_def ordered_unattached_def)

lemma ordered_unattached_set: "set (ordered_unattached d s) = set (unattached d s)"
  by (simp add: ordered_unattached_def)

lemma ordered_unattached_length: "length (ordered_unattached d s) = length (unattached d s)"
  by (simp add: ordered_unattached_def)

lemma unattached_distinct_ids:
  "wf_db d \<Longrightarrow> distinct (map id_col (unattached d s))"
  by (simp add: wf_db_def unattached_def distinct_map_filter)

lemma ordered_unattached_desc:
  assumes "wf_db d" shows "strict_desc id_col (ordered_unattached d s)"
  unfolding ordered_unattached_def
proof (rule strict_desc_rev)
  show "sorted (map id_col (sort_key id_col (unattached d s)))" by simp
  show "distinct (map id_col (sort_key id_col (unattached d s)))"
    using unattached_distinct_ids[OF assms, of s] by (simp add: distinct_map)
qed

lemma take1_drop: "n < length ys \<Longrightarrow> take (Suc 0) (drop n ys) = [ys ! n]"
  by (metis Cons_nth_drop_Suc take0 take_Suc_Cons)

lemma excess_select_none:
  "length (unattached d s) \<le> n \<Longrightarrow> excess_select d s n = []"
  by (simp add: excess_select_unfold ordered_unattached_length)

lemma excess_select_some:
  "n < length (unattached d s) \<Longrightarrow>
   excess_select d s n = [branch_eni (ordered_unattached d s ! n)]"
  by (simp add: excess_select_unfold ordered_unattached_length take1_drop)

lemma excess_select_unattached:
  "set (excess_select d s n) \<subseteq> branch_eni ` set (unattached d s)"
proof -
  have "set (take 1 (drop n (ordered_unattached d s))) \<subseteq> set (ordered_unattached d s)"
    using set_take_subset set_drop_subset by fast
  then show ?thesis by (auto simp: excess_select_unfold ordered_unattached_set)
qed

lemma delete_only_unattached:
  assumes "r \<in> set (branch_enis d)"
    and "r \<notin> set (branch_enis (snd (selectAndDeleteExcessBranch d s n)))"
  shows "branch_eni r \<notin> set (branch_eni_attachments d)"
proof -
  have tx: "branch_enis (snd (selectAndDeleteExcessBranch d s n)) =
              filter (\<lambda>r. branch_eni r \<notin> set (excess_select d s n)) (branch_enis d)"
    by (simp add: selectAndDeleteExcessBranch_def delete_returning_def Let_def split: list.splits)
  have "branch_eni r \<in> set (excess_select d s n)" using assms by (simp add: tx)
  then have "branch_eni r \<in> branch_eni ` set (unattached d s)"
    using excess_select_unattached by fast
  then show ?thesis by (auto simp: unattached_def)
qed

lemma selectAndDelete_none:
  assumes "length (unattached d s) \<le> n"
  shows "selectAndDeleteExcessBranch d s n = (None, d)"
  using excess_select_none[OF assms]
  by (simp add: selectAndDeleteExcessBranch_def delete_returning_def)

lemma selectAndDelete_some:
  assumes wf: "wf_db d" and n: "n < length (unattached d s)"
  defines "r \<equiv> ordered_unattached d s ! n"
  shows "r \<in> set (unattached d s)"
    and "card {c \<in> set (unattached d s). id_col r < id_col c} = n"
    and "selectAndDeleteExcessBranch d s n =
           (Some (branch_eni r), d\<lparr>branch_enis := remove1 r (branch_enis d)\<rparr>)"
proof -
  have n': "n < length (ordered_unattached d s)" using n by (simp add: ordered_unattached_length)
  show mem: "r \<in> set (unattached d s)"
    using nth_mem[OF n'] by (simp add: r_def ordered_unattached_set)
  show "card {c \<in> set (unattached d s). id_col r < id_col c} = n"
    using strict_desc_greater_card[OF ordered_unattached_desc[OF wf] n']
    by (simp add: r_def ordered_unattached_set)
  have rows: "r \<in> set (branch_enis d)" using mem by (simp add: unattached_def)
  have dist: "distinct (map branch_eni (branch_enis d))" using wf by (simp add: wf_db_def)
  have sel: "excess_select d s n = [branch_eni r]"
    using excess_select_some[OF n] by (simp add: r_def)
  show "selectAndDeleteExcessBranch d s n =
           (Some (branch_eni r), d\<lparr>branch_enis := remove1 r (branch_enis d)\<rparr>)"
    using filter_key_eq[OF dist rows] sel
    by (simp add: selectAndDeleteExcessBranch_def delete_returning_def)
qed

lemma selectAndDelete_returned_row:
  assumes "selectAndDeleteExcessBranch d s n = (Some b, tx)"
  shows "b \<in> branch_eni ` set (branch_enis d) \<and> b \<notin> branch_eni ` set (branch_enis tx)
         \<and> branch_eni_attachments tx = branch_eni_attachments d"
proof -
  let ?sel = "excess_select d s n"
  let ?deleted = "filter (\<lambda>r. branch_eni r \<in> set ?sel) (branch_enis d)"
  from assms obtain rest where del: "map branch_eni ?deleted = b # rest"
    and tx: "tx = d\<lparr>branch_enis := filter (\<lambda>r. branch_eni r \<notin> set ?sel) (branch_enis d)\<rparr>"
    by (auto simp: selectAndDeleteExcessBranch_def delete_returning_def Let_def split: list.splits)
  from del have "b \<in> set (map branch_eni ?deleted)" by simp
  then have b: "b \<in> branch_eni ` set (branch_enis d)" "b \<in> set ?sel" by auto
  then show ?thesis using tx by auto
qed

text \<open>
  Claim C1. Whatever the ledger holds, the statement removes a row only if the row has
  no attachment row, and when the subnet has at most \<open>poolTarget\<close> unattached
  interfaces it deletes nothing and the result is "none". On a ledger whose \<open>id\<close> and
  \<open>branch_eni\<close> columns are keys, when the subnet has more than \<open>poolTarget\<close>
  unattached interfaces, exactly one row \<open>r\<close> is removed and its interface ID
  returned; \<open>r\<close> belongs to the subnet and has no attachment row, and exactly
  \<open>poolTarget\<close> unattached rows of the subnet have a greater ordering key than \<open>r\<close>
  (the rows skipped in descending order). The attachment table is left as it was.
\<close>

theorem selectAndDeleteExcessBranch_deletes_one_excess:
  "(\<forall>r. r \<in> set (branch_enis d) \<and>
        r \<notin> set (branch_enis (snd (selectAndDeleteExcessBranch d sid poolTarget))) \<longrightarrow>
        branch_eni r \<notin> set (branch_eni_attachments d)) \<and>
   (length (unattached d sid) \<le> poolTarget \<longrightarrow>
      selectAndDeleteExcessBranch d sid poolTarget = (None, d)) \<and>
   (wf_db d \<and> poolTarget < length (unattached d sid) \<longrightarrow>
      (\<exists>r. r \<in> set (branch_enis d) \<and> subnet_id r = sid \<and>
           branch_eni r \<notin> set (branch_eni_attachments d) \<and>
           card {c \<in> set (unattached d sid). id_col r < id_col c} = poolTarget \<and>
           selectAndDeleteExcessBranch d sid poolTarget =
             (Some (branch_eni r), d\<lparr>branch_enis := remove1 r (branch_enis d)\<rparr>)))"
proof (intro conjI impI allI)
  fix r
  assume "r \<in> set (branch_enis d) \<and>
        r \<notin> set (branch_enis (snd (selectAndDeleteExcessBranch d sid poolTarget)))"
  then show "branch_eni r \<notin> set (branch_eni_attachments d)"
    using delete_only_unattached by blast
next
  assume "length (unattached d sid) \<le> poolTarget"
  then show "selectAndDeleteExcessBranch d sid poolTarget = (None, d)"
    by (rule selectAndDelete_none)
next
  assume a: "wf_db d \<and> poolTarget < length (unattached d sid)"
  then have wf: "wf_db d" and n: "poolTarget < length (unattached d sid)" by simp_all
  let ?r = "ordered_unattached d sid ! poolTarget"
  have mem: "?r \<in> set (unattached d sid)"
    by (rule selectAndDelete_some(1)[OF wf n])
  then have "?r \<in> set (branch_enis d)" "subnet_id ?r = sid"
    "branch_eni ?r \<notin> set (branch_eni_attachments d)"
    by (simp_all add: unattached_def)
  then show "\<exists>r. r \<in> set (branch_enis d) \<and> subnet_id r = sid \<and>
                 branch_eni r \<notin> set (branch_eni_attachments d) \<and>
                 card {c \<in> set (unattached d sid). id_col r < id_col c} = poolTarget \<and>
                 selectAndDeleteExcessBranch d sid poolTarget =
                   (Some (branch_eni r), d\<lparr>branch_enis := remove1 r (branch_enis d)\<rparr>)"
    using selectAndDelete_some(2,3)[OF wf n] by blast
qed

lemma example_db_wf: "wf_db example_db"
  by (simp add: wf_db_def example_db_def)

lemma example_db_unattached: "length (unattached example_db ''subnet-1'') = 3"
  by (simp add: unattached_def example_db_def)

lemma example_db_select:
  "selectAndDeleteExcessBranch example_db ''subnet-1'' 1 =
     (Some ''eni-b'',
      \<lparr>branch_enis =
        [\<lparr>id_col = 1, branch_eni = ''eni-a'', subnet_id = ''subnet-1''\<rparr>,
         \<lparr>id_col = 3, branch_eni = ''eni-c'', subnet_id = ''subnet-1''\<rparr>,
         \<lparr>id_col = 4, branch_eni = ''eni-d'', subnet_id = ''subnet-2''\<rparr>,
         \<lparr>id_col = 5, branch_eni = ''eni-e'', subnet_id = ''subnet-1''\<rparr>],
      branch_eni_attachments = [''eni-c'']\<rparr>)"
  by (simp add: selectAndDeleteExcessBranch_def delete_returning_def excess_select_def
      unattached_def example_db_def)

theorem selectAndDeleteExcessBranch_deletes_one_excess_witness:
  "wf_db example_db \<and>
   selectAndDeleteExcessBranch example_db ''subnet-1'' 3 = (None, example_db) \<and>
   fst (selectAndDeleteExcessBranch example_db ''subnet-1'' 1) = Some ''eni-b'' \<and>
   (\<exists>r. r \<in> set (branch_enis example_db) \<and> subnet_id r = ''subnet-1'' \<and>
        branch_eni r \<notin> set (branch_eni_attachments example_db) \<and>
        card {c \<in> set (unattached example_db ''subnet-1''). id_col r < id_col c} = 1 \<and>
        selectAndDeleteExcessBranch example_db ''subnet-1'' 1 =
          (Some (branch_eni r),
           example_db\<lparr>branch_enis := remove1 r (branch_enis example_db)\<rparr>))"
proof -
  have sel: "fst (selectAndDeleteExcessBranch example_db ''subnet-1'' 1) = Some ''eni-b''"
    by (simp only: example_db_select fst_conv)
  show ?thesis
    using example_db_wf sel
      selectAndDeleteExcessBranch_deletes_one_excess[of example_db "''subnet-1''" 3]
      selectAndDeleteExcessBranch_deletes_one_excess[of example_db "''subnet-1''" 1]
    by (simp add: example_db_unattached)
qed

section \<open>Properties of one reclaim cycle\<close>

lemma Scan_Inr: "Scan failure returned = Inr b \<Longrightarrow> failure = None \<and> returned = Some b"
  by (auto simp: Scan_def split: option.splits)

lemma pool_size_remove1:
  assumes "r \<in> set (unattached d s)"
  shows "Suc (pool_size (d\<lparr>branch_enis := remove1 r (branch_enis d)\<rparr>) s) = pool_size d s"
proof -
  have "unattached (d\<lparr>branch_enis := remove1 r (branch_enis d)\<rparr>) s = remove1 r (unattached d s)"
    by (simp add: unattached_def filter_remove1)
  moreover have "0 < length (unattached d s)" using assms by (cases "unattached d s") auto
  ultimately show ?thesis using assms by (simp add: pool_size_def length_remove1)
qed

text \<open>The transaction's view of the ledger after the statement.\<close>

lemma tx_effect:
  assumes wf: "wf_db d"
  shows "wf_db (snd (selectAndDeleteExcessBranch d s n)) \<and>
         (if pool_size d s \<le> n
          then selectAndDeleteExcessBranch d s n = (None, d)
          else fst (selectAndDeleteExcessBranch d s n) \<noteq> None \<and>
               Suc (pool_size (snd (selectAndDeleteExcessBranch d s n)) s) = pool_size d s)"
proof (cases "pool_size d s \<le> n")
  case True
  then have "selectAndDeleteExcessBranch d s n = (None, d)"
    by (simp add: pool_size_def selectAndDelete_none)
  then show ?thesis using wf True by simp
next
  case False
  then have n: "n < length (unattached d s)" by (simp add: pool_size_def)
  show ?thesis using False selectAndDelete_some[OF wf n] wf
    by (simp add: wf_db_remove1 pool_size_remove1)
qed

lemma cycle_db_cases:
  "fst (doDeleteExcessBranches env d sn) = d \<or>
   fst (doDeleteExcessBranches env d sn) =
     snd (selectAndDeleteExcessBranch d (subnetID sn) warmPoolPerSubnet)"
  by (simp add: doDeleteExcessBranches_def split: sum.splits option.splits prod.splits)

lemma cycle_effect:
  assumes wf: "wf_db d"
  shows "wf_db (fst (doDeleteExcessBranches env d sn)) \<and>
         (fst (doDeleteExcessBranches env d sn) = d \<or>
          (warmPoolPerSubnet < pool_size d (subnetID sn) \<and>
           Suc (pool_size (fst (doDeleteExcessBranches env d sn)) (subnetID sn)) =
             pool_size d (subnetID sn)))"
  using cycle_db_cases[of env d sn] tx_effect[OF wf, of "subnetID sn" warmPoolPerSubnet] wf
  by (cases "pool_size d (subnetID sn) \<le> warmPoolPerSubnet") auto

lemma progress_cycle:
  assumes wf: "wf_db d" and p: "makes_progress env d sn"
  shows "fst (doDeleteExcessBranches env d sn) =
           snd (selectAndDeleteExcessBranch d (subnetID sn) warmPoolPerSubnet)"
proof -
  from p obtain session
    where s: "GetSessionFromAccountAndRegion env (accountID sn, region sn) = Inr session"
    and rest: "BeginTx env = None" "QueryRowContext env = None" "Commit env = None"
    and sel: "case fst (selectAndDeleteExcessBranch d (subnetID sn) warmPoolPerSubnet) of
             None \<Rightarrow> True
           | Some branchENI \<Rightarrow>
               (case GetNetworkInterfaceByID session branchENI of
                  Inl err \<Rightarrow> False
                | Inr iface \<Rightarrow>
                    Ipv6Addresses iface = [] \<and> length (PrivateIpAddresses iface) \<le> 1)"
    by (auto simp: makes_progress_def split: sum.splits)
  show ?thesis
  proof (cases "fst (selectAndDeleteExcessBranch d (subnetID sn) warmPoolPerSubnet)")
    case None
    then have "pool_size d (subnetID sn) \<le> warmPoolPerSubnet"
      using tx_effect[OF wf, of "subnetID sn" warmPoolPerSubnet] by (auto split: if_splits)
    then have "selectAndDeleteExcessBranch d (subnetID sn) warmPoolPerSubnet = (None, d)"
      using tx_effect[OF wf, of "subnetID sn" warmPoolPerSubnet] by simp
    then show ?thesis using s rest by (simp add: doDeleteExcessBranches_def Scan_def)
  next
    case (Some b)
    obtain iface where i: "GetNetworkInterfaceByID session b = Inr iface"
      "Ipv6Addresses iface = []" "length (PrivateIpAddresses iface) \<le> 1"
      using sel Some by (auto split: sum.splits)
    obtain tx
      where tx: "selectAndDeleteExcessBranch d (subnetID sn) warmPoolPerSubnet = (Some b, tx)"
      using Some by (cases "selectAndDeleteExcessBranch d (subnetID sn) warmPoolPerSubnet") simp
    show ?thesis using s rest i tx
      by (simp add: doDeleteExcessBranches_def Scan_def split: option.splits)
  qed
qed

lemma stalled_cycle:
  assumes "\<not> makes_progress env d sn"
  shows "fst (doDeleteExcessBranches env d sn) = d"
proof (cases "GetSessionFromAccountAndRegion env (accountID sn, region sn)")
  case (Inl err)
  then show ?thesis by (simp add: doDeleteExcessBranches_def)
next
  case (Inr session)
  obtain returned tx
    where sel: "selectAndDeleteExcessBranch d (subnetID sn) warmPoolPerSubnet = (returned, tx)"
    by (cases "selectAndDeleteExcessBranch d (subnetID sn) warmPoolPerSubnet")
  show ?thesis
  proof (cases "BeginTx env = None \<and> QueryRowContext env = None \<and> Commit env = None")
    case False
    then show ?thesis using Inr sel
      by (auto simp: doDeleteExcessBranches_def Scan_def split: sum.splits option.splits)
  next
    case True
    then show ?thesis using assms Inr sel
      by (auto simp: doDeleteExcessBranches_def makes_progress_def Scan_def
          split: sum.splits option.splits)
  qed
qed

lemma cycle_pool:
  assumes wf: "wf_db d"
  shows "pool_size (fst (doDeleteExcessBranches env d sn)) (subnetID sn) =
           (if makes_progress env d sn \<and> warmPoolPerSubnet < pool_size d (subnetID sn)
            then pool_size d (subnetID sn) - 1 else pool_size d (subnetID sn))"
proof (cases "makes_progress env d sn")
  case True
  show ?thesis
    using progress_cycle[OF wf True] tx_effect[OF wf, of "subnetID sn" warmPoolPerSubnet] True
    by (auto split: if_splits)
next
  case False
  then show ?thesis using stalled_cycle[OF False] by simp
qed

subsection \<open>The concrete ledgers and sessions\<close>

lemma pool_db_wf: "wf_db (pool_db n)"
proof -
  have "inj_on (\<lambda>i. ''eni-'' @ replicate i (CHR ''|'')) {0..<n}"
    by (rule inj_onI) simp
  moreover have "inj_on int {0..<n}" by simp
  ultimately show ?thesis
    by (simp add: wf_db_def pool_db_def pool_row_def distinct_map comp_def)
qed

lemma pool_db_size: "pool_size (pool_db n) ''subnet-1'' = n"
  by (simp add: pool_size_def unattached_def pool_db_def pool_row_def)

lemma pool_db_candidate:
  assumes "warmPoolPerSubnet < n"
  shows "\<exists>b tx. selectAndDeleteExcessBranch (pool_db n) ''subnet-1'' warmPoolPerSubnet = (Some b, tx) \<and>
           wf_db tx \<and> Suc (pool_size tx ''subnet-1'') = n"
proof -
  let ?r = "selectAndDeleteExcessBranch (pool_db n) ''subnet-1'' warmPoolPerSubnet"
  have "wf_db (snd ?r) \<and> fst ?r \<noteq> None \<and> Suc (pool_size (snd ?r) ''subnet-1'') = n"
    using tx_effect[OF pool_db_wf, of n "''subnet-1''" warmPoolPerSubnet] assms
    by (simp add: pool_db_size)
  then show ?thesis by (cases ?r) auto
qed

lemma env_with_fields:
  "GetSessionFromAccountAndRegion (env_with s) key = Inr s"
  "BeginTx (env_with s) = None"
  "QueryRowContext (env_with s) = None"
  "Commit (env_with s) = None"
  by (simp_all add: env_with_def)

text \<open>
  Claim C3. In a cycle that has its session and its transaction, whose statement has
  deleted a candidate row in the transaction, and in which the cloud describes that
  interface with at least one IPv6 address or more than one IPv4 address, the function
  returns \<open>false\<close> and an error, and the ledger afterwards is the ledger before the
  cycle: the row, gone from the transaction's view, is still in the ledger.
\<close>

theorem doDeleteExcessBranches_rolls_back_on_addresses:
  assumes "GetSessionFromAccountAndRegion env (accountID sn, region sn) = Inr session"
    and "BeginTx env = None"
    and "selectAndDeleteExcessBranch d (subnetID sn) warmPoolPerSubnet = (returned, tx)"
    and "Scan (QueryRowContext env) returned = Inr branchENI"
    and "GetNetworkInterfaceByID session branchENI = Inr iface"
    and "length (Ipv6Addresses iface) \<ge> 1 \<or> length (PrivateIpAddresses iface) > 1"
  shows "doDeleteExcessBranches env d sn =
           (d, False,
            Some (if length (Ipv6Addresses iface) > 0
                  then StillAssignedIPv6 (length (Ipv6Addresses iface))
                  else StillAssignedIPv4 (length (PrivateIpAddresses iface)))) \<and>
         branchENI \<notin> branch_eni ` set (branch_enis tx) \<and>
         branchENI \<in> branch_eni ` set (branch_enis (fst (doDeleteExcessBranches env d sn)))"
proof -
  have ret: "returned = Some branchENI" using Scan_Inr[OF assms(4)] by simp
  have rows: "branchENI \<in> branch_eni ` set (branch_enis d)"
    "branchENI \<notin> branch_eni ` set (branch_enis tx)"
    using selectAndDelete_returned_row[OF assms(3)[unfolded ret]] by simp_all
  have res: "doDeleteExcessBranches env d sn =
           (d, False,
            Some (if length (Ipv6Addresses iface) > 0
                  then StillAssignedIPv6 (length (Ipv6Addresses iface))
                  else StillAssignedIPv4 (length (PrivateIpAddresses iface))))"
    using assms by (cases "Ipv6Addresses iface") (simp_all add: doDeleteExcessBranches_def)
  show ?thesis using rows res by simp
qed

theorem doDeleteExcessBranches_rolls_back_on_addresses_witness:
  "doDeleteExcessBranches (env_with ipv6_session) (pool_db 51) example_subnet =
     (pool_db 51, False, Some (StillAssignedIPv6 1))"
proof -
  obtain b tx
    where sel: "selectAndDeleteExcessBranch (pool_db 51) ''subnet-1'' warmPoolPerSubnet = (Some b, tx)"
    using pool_db_candidate[of 51] by (auto simp: warmPoolPerSubnet_def)
  have "doDeleteExcessBranches (env_with ipv6_session) (pool_db 51) example_subnet =
           (pool_db 51, False,
            Some (if length (Ipv6Addresses ipv6_iface) > 0
                  then StillAssignedIPv6 (length (Ipv6Addresses ipv6_iface))
                  else StillAssignedIPv4 (length (PrivateIpAddresses ipv6_iface))))"
    using doDeleteExcessBranches_rolls_back_on_addresses
      [of "env_with ipv6_session" example_subnet ipv6_session "pool_db 51" "Some b" tx b ipv6_iface]
      sel
    by (simp add: env_with_fields example_subnet_def Scan_def ipv6_session_def ipv6_iface_def)
  then show ?thesis by (simp add: ipv6_iface_def)
qed

text \<open>
  Claim C4. In a cycle that has committed its ledger transaction (session, transaction
  and statement succeeded, the described interface is clean, \<open>tx.Commit\<close> returned no
  error), a failure of the cloud's \<open>DeleteNetworkInterface\<close>: with the code for an
  interface that is not found, the function returns \<open>true\<close> and no error; with any other
  failure it returns \<open>false\<close> and the error \<open>HandleEC2Error\<close> makes of it. In both cases
  the ledger afterwards is the transaction's view, in which the row is deleted.
\<close>

theorem doDeleteExcessBranches_cloud_delete_failure:
  assumes "GetSessionFromAccountAndRegion env (accountID sn, region sn) = Inr session"
    and "BeginTx env = None"
    and "selectAndDeleteExcessBranch d (subnetID sn) warmPoolPerSubnet = (returned, tx)"
    and "Scan (QueryRowContext env) returned = Inr branchENI"
    and "GetNetworkInterfaceByID session branchENI = Inr iface"
    and "length (Ipv6Addresses iface) = 0" and "length (PrivateIpAddresses iface) \<le> 1"
    and "Commit env = None"
    and "DeleteNetworkInterface session branchENI = Some err"
  shows "doDeleteExcessBranches env d sn =
           (if \<exists>awsErr. RetrieveEC2Error err = Some awsErr \<and>
                 Code awsErr = InvalidNetworkInterfaceIDNotFound
            then (tx, True, None)
            else (tx, False, Some (HandleEC2Error err))) \<and>
         branchENI \<in> branch_eni ` set (branch_enis d) \<and>
         branchENI \<notin> branch_eni ` set (branch_enis tx)"
proof -
  have ret: "returned = Some branchENI" using Scan_Inr[OF assms(4)] by simp
  have rows: "branchENI \<in> branch_eni ` set (branch_enis d)"
    "branchENI \<notin> branch_eni ` set (branch_enis tx)"
    using selectAndDelete_returned_row[OF assms(3)[unfolded ret]] by simp_all
  have res: "doDeleteExcessBranches env d sn =
           (if \<exists>awsErr. RetrieveEC2Error err = Some awsErr \<and>
                 Code awsErr = InvalidNetworkInterfaceIDNotFound
            then (tx, True, None)
            else (tx, False, Some (HandleEC2Error err)))"
    using assms by (auto simp: doDeleteExcessBranches_def split: option.splits)
  show ?thesis using rows res by simp
qed

theorem doDeleteExcessBranches_cloud_delete_failure_witness:
  "\<exists>tx. pool_size tx ''subnet-1'' = 50 \<and>
     doDeleteExcessBranches (env_with gone_session) (pool_db 51) example_subnet =
       (tx, True, None) \<and>
     doDeleteExcessBranches (env_with throttled_session) (pool_db 51) example_subnet =
       (tx, False, Some (HandledEC2 (AwsError ''RequestLimitExceeded'' ''slow down'')))"
proof -
  obtain b tx
    where sel: "selectAndDeleteExcessBranch (pool_db 51) ''subnet-1'' warmPoolPerSubnet = (Some b, tx)"
      and size: "Suc (pool_size tx ''subnet-1'') = 51"
    using pool_db_candidate[of 51] by (auto simp: warmPoolPerSubnet_def)
  have gone: "doDeleteExcessBranches (env_with gone_session) (pool_db 51) example_subnet =
       (tx, True, None)"
    using doDeleteExcessBranches_cloud_delete_failure
      [of "env_with gone_session" example_subnet gone_session "pool_db 51" "Some b" tx b
          clean_iface "AwsError ''InvalidNetworkInterfaceID.NotFound'' ''does not exist''"]
      sel
    by (simp add: env_with_fields example_subnet_def Scan_def gone_session_def clean_iface_def
        InvalidNetworkInterfaceIDNotFound_def)
  have throttled:
    "doDeleteExcessBranches (env_with throttled_session) (pool_db 51) example_subnet =
       (tx, False, Some (HandledEC2 (AwsError ''RequestLimitExceeded'' ''slow down'')))"
    using doDeleteExcessBranches_cloud_delete_failure
      [of "env_with throttled_session" example_subnet throttled_session "pool_db 51" "Some b" tx b
          clean_iface "AwsError ''RequestLimitExceeded'' ''slow down''"]
      sel
    by (simp add: env_with_fields example_subnet_def Scan_def throttled_session_def
        clean_iface_def InvalidNetworkInterfaceIDNotFound_def HandleEC2Error_def)
  show ?thesis using size gone throttled by auto
qed

section \<open>Properties of the reclaimer loop\<close>

lemma loop_Cons_done:
  assumes "ctx_done it"
  shows "deleteExccessBranchesLoop (it # its) d item =
    (fst (doDeleteExcessBranches (cycle it) d item),
     [(snd (doDeleteExcessBranches (cycle it) d item),
       (if snd (snd (doDeleteExcessBranches (cycle it) d item)) \<noteq> None then timeBetweenErrors
        else if fst (snd (doDeleteExcessBranches (cycle it) d item)) then timeBetweenDeletions
        else timeBetweenNoDeletions))],
     Returned (Some ContextCanceled))"
  using assms by (simp add: waitFor_def Let_def split: prod.splits)

lemma loop_Cons_live:
  assumes "\<not> ctx_done it"
  shows "deleteExccessBranchesLoop (it # its) d item =
    (fst (deleteExccessBranchesLoop its (fst (doDeleteExcessBranches (cycle it) d item)) item),
     (snd (doDeleteExcessBranches (cycle it) d item),
       (if snd (snd (doDeleteExcessBranches (cycle it) d item)) \<noteq> None then timeBetweenErrors
        else if fst (snd (doDeleteExcessBranches (cycle it) d item)) then timeBetweenDeletions
        else timeBetweenNoDeletions))
       # fst (snd (deleteExccessBranchesLoop its
                     (fst (doDeleteExcessBranches (cycle it) d item)) item)),
     snd (snd (deleteExccessBranchesLoop its
                 (fst (doDeleteExcessBranches (cycle it) d item)) item)))"
  using assms by (simp add: waitFor_def Let_def split: prod.splits)

lemma loop_run:
  "snd (snd (deleteExccessBranchesLoop its d item)) =
     (if \<exists>it \<in> set its. ctx_done it then Returned (Some ContextCanceled) else StillLooping) \<and>
   length (fst (snd (deleteExccessBranchesLoop its d item))) =
     (if \<exists>it \<in> set its. ctx_done it
      then Suc (length (takeWhile (\<lambda>it. \<not> ctx_done it) its)) else length its)"
proof (induction its arbitrary: d)
  case Nil show ?case by simp
next
  case (Cons it its)
  show ?case
  proof (cases "ctx_done it")
    case True
    then show ?thesis by (simp add: loop_Cons_done del: deleteExccessBranchesLoop.simps)
  next
    case False
    then show ?thesis using Cons.IH
      by (simp add: loop_Cons_live del: deleteExccessBranchesLoop.simps)
  qed
qed

lemma loop_safe:
  assumes "wf_db d"
  shows "wf_db (fst (deleteExccessBranchesLoop its d item)) \<and>
         min (pool_size d (subnetID item)) warmPoolPerSubnet
           \<le> pool_size (fst (deleteExccessBranchesLoop its d item)) (subnetID item) \<and>
         pool_size (fst (deleteExccessBranchesLoop its d item)) (subnetID item)
           \<le> pool_size d (subnetID item)"
  using assms
proof (induction its arbitrary: d)
  case Nil then show ?case by simp
next
  case (Cons it its)
  let ?d1 = "fst (doDeleteExcessBranches (cycle it) d item)"
  note ce = cycle_effect[OF Cons.prems, of "cycle it" item]
  show ?case
  proof (cases "ctx_done it")
    case True
    then show ?thesis using ce
      by (auto simp: loop_Cons_done simp del: deleteExccessBranchesLoop.simps)
  next
    case False
    have wf1: "wf_db ?d1" using ce by simp
    show ?thesis using Cons.IH[OF wf1] ce False
      by (auto simp: loop_Cons_live simp del: deleteExccessBranchesLoop.simps)
  qed
qed

lemma loop_pool:
  assumes "wf_db d"
  shows "pool_size (fst (deleteExccessBranchesLoop its d item)) (subnetID item) =
           (if pool_size d (subnetID item) \<le> warmPoolPerSubnet then pool_size d (subnetID item)
            else max warmPoolPerSubnet
                   (pool_size d (subnetID item) - progress_cycles its d item))"
  using assms
proof (induction its arbitrary: d)
  case Nil then show ?case by simp
next
  case (Cons it its)
  let ?d1 = "fst (doDeleteExcessBranches (cycle it) d item)"
  have wf1: "wf_db ?d1" using cycle_effect[OF Cons.prems, of "cycle it" item] by simp
  note cp = cycle_pool[OF Cons.prems, of "cycle it" item]
  show ?case
  proof (cases "ctx_done it")
    case True
    then show ?thesis using cp
      by (simp add: loop_Cons_done del: deleteExccessBranchesLoop.simps)
  next
    case False
    show ?thesis using Cons.IH[OF wf1] cp False
      by (simp add: loop_Cons_live del: deleteExccessBranchesLoop.simps split: if_splits)
  qed
qed

text \<open>
  Claim C2, as the code has it. On a ledger whose \<open>id\<close> and \<open>branch_eni\<close> columns are
  keys, and with no other writer between the cycles: (1) a cycle deletes nothing when
  the subnet has at most \<open>warmPoolPerSubnet\<close> unattached interfaces; above that it
  lowers their number by one when it is able to make progress (session, transaction,
  statement and commit succeed, the selected interface is described with no IPv6 and
  at most one IPv4 address) and leaves it as it was otherwise; (2) however the
  collaborators answer, any number of loop iterations leaves at least
  \<open>min n warmPoolPerSubnet\<close> and at most \<open>n\<close> unattached interfaces, \<open>n\<close> being their
  number at the start; (3) starting above \<open>warmPoolPerSubnet\<close>, the number left is
  \<open>n\<close> less the number of cycles that were able to make progress, and not less than
  \<open>warmPoolPerSubnet\<close>: exactly \<open>warmPoolPerSubnet\<close> unattached interfaces remain once
  as many cycles as there are excess interfaces were able to make progress, whatever
  the other cycles met, also after further cycles.
\<close>

theorem reclaim_converges_to_warm_pool:
  assumes "wf_db d"
  shows "(pool_size d (subnetID item) \<le> warmPoolPerSubnet \<longrightarrow>
            fst (doDeleteExcessBranches env d item) = d) \<and>
         pool_size (fst (doDeleteExcessBranches env d item)) (subnetID item) =
           (if makes_progress env d item \<and> warmPoolPerSubnet < pool_size d (subnetID item)
            then pool_size d (subnetID item) - 1 else pool_size d (subnetID item)) \<and>
         min (pool_size d (subnetID item)) warmPoolPerSubnet
           \<le> pool_size (fst (deleteExccessBranchesLoop its d item)) (subnetID item) \<and>
         pool_size (fst (deleteExccessBranchesLoop its d item)) (subnetID item)
           \<le> pool_size d (subnetID item) \<and>
         pool_size (fst (deleteExccessBranchesLoop its d item)) (subnetID item) =
           (if pool_size d (subnetID item) \<le> warmPoolPerSubnet then pool_size d (subnetID item)
            else max warmPoolPerSubnet
                   (pool_size d (subnetID item) - progress_cycles its d item)) \<and>
         (warmPoolPerSubnet < pool_size d (subnetID item) \<and>
          pool_size d (subnetID item) - warmPoolPerSubnet \<le> progress_cycles its d item \<longrightarrow>
            pool_size (fst (deleteExccessBranchesLoop its d item)) (subnetID item) =
              warmPoolPerSubnet)"
proof (intro conjI impI)
  note ce = cycle_effect[OF assms, of env item]
  assume "pool_size d (subnetID item) \<le> warmPoolPerSubnet"
  then show "fst (doDeleteExcessBranches env d item) = d" using ce by auto
next
  show "pool_size (fst (doDeleteExcessBranches env d item)) (subnetID item) =
           (if makes_progress env d item \<and> warmPoolPerSubnet < pool_size d (subnetID item)
            then pool_size d (subnetID item) - 1 else pool_size d (subnetID item))"
    by (rule cycle_pool[OF assms])
next
  show "min (pool_size d (subnetID item)) warmPoolPerSubnet
           \<le> pool_size (fst (deleteExccessBranchesLoop its d item)) (subnetID item)"
    using loop_safe[OF assms, of its item] by simp
next
  show "pool_size (fst (deleteExccessBranchesLoop its d item)) (subnetID item)
           \<le> pool_size d (subnetID item)"
    using loop_safe[OF assms, of its item] by simp
next
  show "pool_size (fst (deleteExccessBranchesLoop its d item)) (subnetID item) =
           (if pool_size d (subnetID item) \<le> warmPoolPerSubnet then pool_size d (subnetID item)
            else max warmPoolPerSubnet
                   (pool_size d (subnetID item) - progress_cycles its d item))"
    by (rule loop_pool[OF assms])
next
  assume a: "warmPoolPerSubnet < pool_size d (subnetID item) \<and>
          pool_size d (subnetID item) - warmPoolPerSubnet \<le> progress_cycles its d item"
  then have "max warmPoolPerSubnet (pool_size d (subnetID item) - progress_cycles its d item) =
          warmPoolPerSubnet"
    by (simp add: max_def) arith
  then show "pool_size (fst (deleteExccessBranchesLoop its d item)) (subnetID item) =
          warmPoolPerSubnet"
    using loop_pool[OF assms, of its item] a by simp
qed

lemma progress_clean: "makes_progress (env_with clean_session) d sn"
  by (simp add: makes_progress_def env_with_fields clean_session_def clean_iface_def
      split: option.splits)

lemma no_progress_failing: "\<not> makes_progress failing_env d sn"
  by (simp add: makes_progress_def failing_env_def)

lemma pool_db_select:
  assumes "warmPoolPerSubnet < n"
  shows "fst (selectAndDeleteExcessBranch (pool_db n) ''subnet-1'' warmPoolPerSubnet) =
           Some (branch_eni (pool_row (n - Suc warmPoolPerSubnet)))"
proof -
  have un: "unattached (pool_db n) ''subnet-1'' = map pool_row [0..<n]"
    by (simp add: unattached_def pool_db_def pool_row_def)
  have ids: "map id_col (map pool_row [0..<n]) = map int [0..<n]"
    by (simp add: pool_row_def comp_def)
  have "sorted (map int [0..<n])"
    by (simp add: sorted_map sorted_wrt_iff_nth_less)
  then have "sorted (map id_col (map pool_row [0..<n]))"
    by (simp only: ids)
  then have "sort_key id_col (map pool_row [0..<n]) = map pool_row [0..<n]"
    by (rule sort_key_id_if_sorted)
  then have ord: "ordered_unattached (pool_db n) ''subnet-1'' = rev (map pool_row [0..<n])"
    by (simp add: ordered_unattached_def un)
  have len: "warmPoolPerSubnet < length (unattached (pool_db n) ''subnet-1'')"
    using assms by (simp add: un)
  have "ordered_unattached (pool_db n) ''subnet-1'' ! warmPoolPerSubnet =
          pool_row (n - Suc warmPoolPerSubnet)"
    using assms by (simp add: ord rev_nth)
  then show ?thesis
    using selectAndDelete_some(3)[OF pool_db_wf len] by simp
qed

theorem reclaim_converges_to_warm_pool_witness:
  "wf_db (pool_db 52) \<and> pool_size (pool_db 52) (subnetID example_subnet) = 52 \<and>
   progress_cycles [quiet_iteration, failing_iteration, quiet_iteration, quiet_iteration]
     (pool_db 52) example_subnet = 3 \<and>
   pool_size (fst (deleteExccessBranchesLoop
                     [quiet_iteration, failing_iteration, quiet_iteration, quiet_iteration]
                     (pool_db 52) example_subnet)) (subnetID example_subnet) = 50 \<and>
   fst (doDeleteExcessBranches (env_with clean_session) (pool_db 50) example_subnet) =
     pool_db 50 \<and>
   \<not> makes_progress (env_with picky_session) (pool_db 52) example_subnet \<and>
   progress_cycles [picky_iteration] (pool_db 51) example_subnet = 1 \<and>
   pool_size (fst (deleteExccessBranchesLoop [picky_iteration] (pool_db 51) example_subnet))
     (subnetID example_subnet) = 50"
proof -
  have size: "\<And>n. pool_size (pool_db n) (subnetID example_subnet) = n"
    by (simp add: pool_db_size example_subnet_def)
  have its: "cycle quiet_iteration = env_with clean_session" "\<not> ctx_done quiet_iteration"
    "cycle failing_iteration = failing_env" "\<not> ctx_done failing_iteration"
    "cycle picky_iteration = env_with picky_session" "\<not> ctx_done picky_iteration"
    by (simp_all add: quiet_iteration_def failing_iteration_def picky_iteration_def)
  have progress:
    "progress_cycles [quiet_iteration, failing_iteration, quiet_iteration, quiet_iteration]
       (pool_db 52) example_subnet = 3"
    by (simp add: its progress_clean no_progress_failing)
  have sel51: "fst (selectAndDeleteExcessBranch (pool_db 51) ''subnet-1'' warmPoolPerSubnet) =
                 Some ''eni-''"
    using pool_db_select[of 51] by (simp add: warmPoolPerSubnet_def pool_row_def)
  have sel52: "fst (selectAndDeleteExcessBranch (pool_db 52) ''subnet-1'' warmPoolPerSubnet) =
                 Some ''eni-|''"
    using pool_db_select[of 52] by (simp add: warmPoolPerSubnet_def pool_row_def)
  have picky51: "makes_progress (env_with picky_session) (pool_db 51) example_subnet"
    by (simp add: makes_progress_def env_with_fields example_subnet_def sel51
        picky_session_def clean_iface_def)
  have picky52: "\<not> makes_progress (env_with picky_session) (pool_db 52) example_subnet"
    by (simp add: makes_progress_def env_with_fields example_subnet_def sel52
        picky_session_def ipv6_iface_def)
  have picky: "progress_cycles [picky_iteration] (pool_db 51) example_subnet = 1"
    by (simp add: its picky51)
  have a: "pool_size (fst (deleteExccessBranchesLoop
                     [quiet_iteration, failing_iteration, quiet_iteration, quiet_iteration]
                     (pool_db 52) example_subnet)) (subnetID example_subnet) = 50"
    using reclaim_converges_to_warm_pool
        [OF pool_db_wf, of 52 example_subnet "env_with clean_session"
          "[quiet_iteration, failing_iteration, quiet_iteration, quiet_iteration]"]
    by (simp add: size progress warmPoolPerSubnet_def
        del: deleteExccessBranchesLoop.simps progress_cycles.simps)
  have b: "fst (doDeleteExcessBranches (env_with clean_session) (pool_db 50) example_subnet) =
     pool_db 50"
    using reclaim_converges_to_warm_pool
        [OF pool_db_wf, of 50 example_subnet "env_with clean_session" "[]"]
    by (simp add: size warmPoolPerSubnet_def)
  have c: "pool_size (fst (deleteExccessBranchesLoop [picky_iteration] (pool_db 51)
                     example_subnet)) (subnetID example_subnet) = 50"
    using reclaim_converges_to_warm_pool
        [OF pool_db_wf, of 51 example_subnet "env_with clean_session" "[picky_iteration]"]
    by (simp add: size picky warmPoolPerSubnet_def
        del: deleteExccessBranchesLoop.simps progress_cycles.simps)
  show ?thesis using pool_db_wf[of 52] size[of 52] progress a b picky52 picky c by blast
qed

lemma guarded_cycle:
  "fst (doDeleteExcessBranches (env_with ipv6_session) d sn) = d"
  by (simp add: doDeleteExcessBranches_def env_with_fields ipv6_session_def ipv6_iface_def
      split: sum.splits prod.splits)

lemma guarded_cycles:
  "fst (deleteExccessBranchesLoop (replicate k stuck_iteration) d sn) = d"
proof (induction k)
  case 0 show ?case by simp
next
  case (Suc k)
  have live: "\<not> ctx_done stuck_iteration" "cycle stuck_iteration = env_with ipv6_session"
    by (simp_all add: stuck_iteration_def)
  show ?case using Suc
    by (simp add: loop_Cons_live live guarded_cycle del: deleteExccessBranchesLoop.simps)
qed

text \<open>
  A subnet with one excess interface whose candidate still shows an IPv6 address.
  Every collaborator answers; each cycle deletes the candidate in its transaction,
  meets the address guard and rolls back, so the next cycle selects the same candidate,
  and the subnet still has 51 unattached interfaces after the cycles.
\<close>

theorem reclaim_stuck_behind_guard_counterexample:
  "wf_db (pool_db 51) \<and>
   warmPoolPerSubnet < pool_size (pool_db 51) (subnetID example_subnet) \<and>
   (\<exists>branchENI.
      snd (doDeleteExcessBranches (cycle stuck_iteration) (pool_db 51) example_subnet) =
        (False, Some (StillAssignedIPv6 1)) \<and>
      fst (selectAndDeleteExcessBranch (pool_db 51) (subnetID example_subnet) warmPoolPerSubnet) =
        Some branchENI) \<and>
   pool_size (fst (deleteExccessBranchesLoop
                     [stuck_iteration, stuck_iteration, stuck_iteration]
                     (pool_db 51) example_subnet)) (subnetID example_subnet) = 51"
proof -
  have size: "pool_size (pool_db 51) (subnetID example_subnet) = 51"
    by (simp add: pool_db_size example_subnet_def)
  obtain b tx
    where sel: "selectAndDeleteExcessBranch (pool_db 51) ''subnet-1'' warmPoolPerSubnet = (Some b, tx)"
    using pool_db_candidate[of 51] by (auto simp: warmPoolPerSubnet_def)
  have out: "snd (doDeleteExcessBranches (env_with ipv6_session) (pool_db 51) example_subnet) =
        (False, Some (StillAssignedIPv6 1))"
    using sel
    by (simp add: doDeleteExcessBranches_def env_with_fields example_subnet_def Scan_def
        ipv6_session_def ipv6_iface_def)
  have run: "fst (deleteExccessBranchesLoop [stuck_iteration, stuck_iteration, stuck_iteration]
                     (pool_db 51) example_subnet) = pool_db 51"
    using guarded_cycles[of 3 "pool_db 51" example_subnet]
    by (simp only: numeral_3_eq_3 replicate.simps)
  have cyc: "cycle stuck_iteration = env_with ipv6_session"
    by (simp add: stuck_iteration_def)
  have sid: "subnetID example_subnet = ''subnet-1''"
    by (simp add: example_subnet_def)
  have c2: "warmPoolPerSubnet < pool_size (pool_db 51) (subnetID example_subnet)"
    by (simp add: size warmPoolPerSubnet_def)
  have c3: "\<exists>branchENI.
      snd (doDeleteExcessBranches (cycle stuck_iteration) (pool_db 51) example_subnet) =
        (False, Some (StillAssignedIPv6 1)) \<and>
      fst (selectAndDeleteExcessBranch (pool_db 51) (subnetID example_subnet) warmPoolPerSubnet) =
        Some branchENI"
    by (simp only: cyc sid out sel fst_conv) simp
  have c4: "pool_size (fst (deleteExccessBranchesLoop
                     [stuck_iteration, stuck_iteration, stuck_iteration]
                     (pool_db 51) example_subnet)) (subnetID example_subnet) = 51"
    by (simp only: run size)
  show ?thesis using pool_db_wf[of 51] c2 c3 c4 by blast
qed

text \<open>
  Claim C7, as the code has it. The delay after a deletion is the shortest, the delay
  after an error the medium one, and the delay after an idle cycle the longest:
  5 s, 10 s and 2 min.
\<close>

theorem delay_constants_order:
  "timeBetweenDeletions < timeBetweenErrors \<and> timeBetweenErrors < timeBetweenNoDeletions"
  by (simp add: timeBetweenDeletions_def timeBetweenErrors_def timeBetweenNoDeletions_def
      Second_def Minute_def)

text \<open>The order the claim states does not hold: the delay after an error is not the shortest.\<close>

theorem delay_constants_claimed_order_counterexample:
  "\<not> (timeBetweenErrors < timeBetweenDeletions \<and> timeBetweenDeletions < timeBetweenNoDeletions)"
  by (simp add: timeBetweenDeletions_def timeBetweenErrors_def timeBetweenNoDeletions_def
      Second_def Minute_def)

text \<open>
  Claim C8. In every iteration the loop runs, the delay handed to \<open>waitFor\<close> is decided
  by what \<open>doDeleteExcessBranches\<close> returned in that iteration, on the ledger the
  iterations before it left: \<open>timeBetweenErrors\<close> for an error, else
  \<open>timeBetweenDeletions\<close> when a branch interface was deleted, else
  \<open>timeBetweenNoDeletions\<close>.
\<close>

theorem loop_delay_follows_outcome:
  assumes "i < length (fst (snd (deleteExccessBranchesLoop its d item)))"
  shows "\<exists>branchesDeleted err.
           snd (doDeleteExcessBranches (cycle (its ! i))
                  (fst (deleteExccessBranchesLoop (take i its) d item)) item) =
             (branchesDeleted, err) \<and>
           fst (snd (deleteExccessBranchesLoop its d item)) ! i =
             ((branchesDeleted, err),
              (if err \<noteq> None then timeBetweenErrors
               else if branchesDeleted then timeBetweenDeletions
               else timeBetweenNoDeletions))"
  using assms
proof (induction its arbitrary: i d)
  case Nil then show ?case by simp
next
  case (Cons it its)
  let ?c = "doDeleteExcessBranches (cycle it) d item"
  show ?case
  proof (cases i)
    case 0
    show ?thesis
      by (cases "ctx_done it")
        (simp_all add: 0 loop_Cons_done loop_Cons_live prod_eq_iff
          del: deleteExccessBranchesLoop.simps(2))
  next
    case (Suc j)
    have live: "\<not> ctx_done it" using Cons.prems Suc
      by (auto simp: loop_Cons_done simp del: deleteExccessBranchesLoop.simps)
    have j: "j < length (fst (snd (deleteExccessBranchesLoop its (fst ?c) item)))"
      using Cons.prems Suc live
      by (simp add: loop_Cons_live del: deleteExccessBranchesLoop.simps)
    show ?thesis using Cons.IH[OF j] live
      by (simp add: Suc loop_Cons_live del: deleteExccessBranchesLoop.simps)
  qed
qed

lemma clean_cycle_deletes:
  assumes "selectAndDeleteExcessBranch d ''subnet-1'' warmPoolPerSubnet = (Some b, tx)"
  shows "doDeleteExcessBranches (env_with clean_session) d example_subnet = (tx, True, None)"
  using assms
  by (simp add: doDeleteExcessBranches_def env_with_fields example_subnet_def Scan_def
      clean_session_def clean_iface_def)

lemma clean_cycle_idle:
  assumes "wf_db d" and "pool_size d ''subnet-1'' \<le> warmPoolPerSubnet"
  shows "doDeleteExcessBranches (env_with clean_session) d example_subnet = (d, False, None)"
proof -
  have "selectAndDeleteExcessBranch d ''subnet-1'' warmPoolPerSubnet = (None, d)"
    using tx_effect[OF assms(1), of "''subnet-1''" warmPoolPerSubnet] assms(2) by simp
  then show ?thesis
    by (simp add: doDeleteExcessBranches_def env_with_fields example_subnet_def Scan_def)
qed

lemma failing_cycle:
  "doDeleteExcessBranches failing_env d sn =
     (d, False, Some (Wrap (Opaque ''no credentials'') ''Cannot get EC2 session''))"
  by (simp add: doDeleteExcessBranches_def failing_env_def)

theorem loop_delay_follows_outcome_witness:
  "length (fst (snd (deleteExccessBranchesLoop
       [quiet_iteration, failing_iteration, cancelled_iteration] (pool_db 51) example_subnet))) = 3 \<and>
   fst (snd (deleteExccessBranchesLoop
       [quiet_iteration, failing_iteration, cancelled_iteration] (pool_db 51) example_subnet)) ! 0 =
     ((True, None), timeBetweenDeletions) \<and>
   fst (snd (deleteExccessBranchesLoop
       [quiet_iteration, failing_iteration, cancelled_iteration] (pool_db 51) example_subnet)) ! 1 =
     ((False, Some (Wrap (Opaque ''no credentials'') ''Cannot get EC2 session'')),
      timeBetweenErrors) \<and>
   fst (snd (deleteExccessBranchesLoop
       [quiet_iteration, failing_iteration, cancelled_iteration] (pool_db 51) example_subnet)) ! 2 =
     ((False, None), timeBetweenNoDeletions)"
proof -
  let ?its = "[quiet_iteration, failing_iteration, cancelled_iteration]"
  let ?trace = "fst (snd (deleteExccessBranchesLoop ?its (pool_db 51) example_subnet))"
  obtain b tx
    where sel: "selectAndDeleteExcessBranch (pool_db 51) ''subnet-1'' warmPoolPerSubnet = (Some b, tx)"
      and wf: "wf_db tx" and size: "Suc (pool_size tx ''subnet-1'') = 51"
    using pool_db_candidate[of 51] by (auto simp: warmPoolPerSubnet_def)
  have c0: "doDeleteExcessBranches (env_with clean_session) (pool_db 51) example_subnet =
              (tx, True, None)"
    by (rule clean_cycle_deletes[OF sel])
  have c2: "doDeleteExcessBranches (env_with clean_session) tx example_subnet = (tx, False, None)"
    using clean_cycle_idle[OF wf] size by (simp add: warmPoolPerSubnet_def)
  have its: "cycle quiet_iteration = env_with clean_session" "\<not> ctx_done quiet_iteration"
    "cycle failing_iteration = failing_env" "\<not> ctx_done failing_iteration"
    "cycle cancelled_iteration = env_with clean_session" "ctx_done cancelled_iteration"
    by (simp_all add: quiet_iteration_def failing_iteration_def cancelled_iteration_def)
  have len: "length ?trace = 3"
    using loop_run[of ?its "pool_db 51" example_subnet] by (simp add: its)
  have d1: "fst (deleteExccessBranchesLoop [quiet_iteration] (pool_db 51) example_subnet) = tx"
    by (simp add: loop_Cons_live its c0 del: deleteExccessBranchesLoop.simps(2))
  have d2: "fst (deleteExccessBranchesLoop [quiet_iteration, failing_iteration] (pool_db 51)
                   example_subnet) = tx"
    by (simp add: loop_Cons_live its c0 failing_cycle del: deleteExccessBranchesLoop.simps(2))
  have n0: "?trace ! 0 = ((True, None), timeBetweenDeletions)"
    using loop_delay_follows_outcome[of 0 ?its "pool_db 51" example_subnet] len
    by (auto simp: its c0 simp del: deleteExccessBranchesLoop.simps(2))
  have n1: "?trace ! 1 =
     ((False, Some (Wrap (Opaque ''no credentials'') ''Cannot get EC2 session'')),
      timeBetweenErrors)"
    using loop_delay_follows_outcome[of 1 ?its "pool_db 51" example_subnet] len
    by (auto simp: its d1 failing_cycle simp del: deleteExccessBranchesLoop.simps(2))
  have n2: "?trace ! 2 = ((False, None), timeBetweenNoDeletions)"
    using loop_delay_follows_outcome[of 2 ?its "pool_db 51" example_subnet] len
    by (auto simp: its d2 c2 simp del: deleteExccessBranchesLoop.simps(2))
  show ?thesis using len n0 n1 n2 by simp
qed

text \<open>
  Claim C9, as the code has it. The loop returns when, and only when, the context is
  cancelled before one of its waits is over: it returns at the first such wait, and
  no outcome of a cycle makes it return. What it returns then is the error of the
  cancelled wait, not \<open>nil\<close>.
\<close>

theorem loop_returns_only_when_cancelled:
  "snd (snd (deleteExccessBranchesLoop its d item)) =
     (if \<exists>it \<in> set its. ctx_done it then Returned (Some ContextCanceled) else StillLooping) \<and>
   snd (snd (deleteExccessBranchesLoop its d item)) \<noteq> Returned None \<and>
   length (fst (snd (deleteExccessBranchesLoop its d item))) =
     (if \<exists>it \<in> set its. ctx_done it
      then Suc (length (takeWhile (\<lambda>it. \<not> ctx_done it) its)) else length its)"
  using loop_run[of its d item] by simp

theorem loop_returns_only_when_cancelled_witness:
  "snd (snd (deleteExccessBranchesLoop [failing_iteration, failing_iteration]
               example_db example_subnet)) = StillLooping \<and>
   snd (snd (deleteExccessBranchesLoop [failing_iteration, cancelled_iteration, quiet_iteration]
               example_db example_subnet)) = Returned (Some ContextCanceled) \<and>
   length (fst (snd (deleteExccessBranchesLoop
               [failing_iteration, cancelled_iteration, quiet_iteration]
               example_db example_subnet))) = 2"
  using loop_returns_only_when_cancelled
      [of "[failing_iteration, failing_iteration]" example_db example_subnet]
    loop_returns_only_when_cancelled
      [of "[failing_iteration, cancelled_iteration, quiet_iteration]" example_db example_subnet]
  by (simp add: failing_iteration_def cancelled_iteration_def quiet_iteration_def
      del: deleteExccessBranchesLoop.simps)

text \<open>
  A run that is stopped by cancelling the context, with a cycle that met no failure:
  the loop returns an error.
\<close>

theorem loop_clean_stop_counterexample:
  "ctx_done cancelled_iteration \<and>
   doDeleteExcessBranches (cycle cancelled_iteration) example_db example_subnet =
     (example_db, False, None) \<and>
   snd (snd (deleteExccessBranchesLoop [cancelled_iteration] example_db example_subnet)) =
     Returned (Some ContextCanceled) \<and>
   snd (snd (deleteExccessBranchesLoop [cancelled_iteration] example_db example_subnet)) \<noteq>
     Returned None"
proof -
  have its: "cycle cancelled_iteration = env_with clean_session" "ctx_done cancelled_iteration"
    by (simp_all add: cancelled_iteration_def)
  have "pool_size example_db ''subnet-1'' \<le> warmPoolPerSubnet"
    by (simp add: pool_size_def example_db_unattached warmPoolPerSubnet_def)
  then have c: "doDeleteExcessBranches (env_with clean_session) example_db example_subnet =
     (example_db, False, None)"
    by (rule clean_cycle_idle[OF example_db_wf])
  show ?thesis
    by (simp add: loop_Cons_done its c del: deleteExccessBranchesLoop.simps(2))
qed

section \<open>Properties of the GC cycle\<close>

lemma tasks_loop_result:
  "tasks_loop ts acc =
     (if \<exists>t \<in> set ts. Name t = [] then Inl InvalidTask else Inr (acc @ map Name ts))"
  by (induction ts arbitrary: acc) auto

lemma executors_loop_result:
  "executors_loop es acc =
     (if \<exists>e \<in> set es. \<exists>t \<in> set (Tasks e). Name t = [] then Inl InvalidTask
      else Inr (acc @ concat (map (\<lambda>e. map Name (Tasks e)) es)))"
  by (induction es arbitrary: acc) (auto simp: tasks_loop_result)

lemma frameworks_loop_result:
  "frameworks_loop fs acc =
     (if \<exists>f \<in> set fs. \<exists>e \<in> set (Executors f). \<exists>t \<in> set (Tasks e). Name t = []
      then Inl InvalidTask
      else Inr (acc @ concat (map (\<lambda>f. concat (map (\<lambda>e. map Name (Tasks e)) (Executors f))) fs)))"
  by (induction fs arbitrary: acc) (auto simp: executors_loop_result)

text \<open>
  Claim C6. When the fetched state document decodes to a state with a task entry whose
  name is empty, \<open>parseMesosTasksBody\<close> returns the invalid-task error, whatever the
  other entries are. A GC cycle with \<open>mesos\<close> as its source of truth that fetched this
  document makes no call to the remote service (nor to the local teardown) and
  returns an error; when the node's identity was obtained, that error is the parse
  error, wrapped.
\<close>

theorem GC_aborts_on_unnamed_mesos_task:
  assumes "json_Unmarshal env body = Inr state" and "has_unnamed_task state"
  shows "parseMesosTasksBody env body = Inl InvalidTask \<and>
         (SourceOfTruth args = ''mesos'' \<and> Get env (MesosStateURL args) = Inr body \<longrightarrow>
            fst (GC env args) = [] \<and> snd (GC env args) \<noteq> None \<and>
            (\<forall>instanceIdentity. GetIdentity env = Inr instanceIdentity \<longrightarrow>
               GC env args = ([], Some (Wrap InvalidTask ''Could not fetch running tasks''))))"
proof -
  have p: "parseMesosTasksBody env body = Inl InvalidTask"
    using assms by (simp add: parseMesosTasksBody_def frameworks_loop_result has_unnamed_task_def)
  show ?thesis using p
    by (auto simp: GC_def runningTaskIDs_def mesosTasks_def split: sum.splits)
qed

theorem GC_aborts_on_unnamed_mesos_task_witness:
  "has_unnamed_task example_state \<and>
   parseMesosTasksBody example_gc_env (MesosStateURL mesos_args) = Inl InvalidTask \<and>
   GC example_gc_env mesos_args = ([], Some (Wrap InvalidTask ''Could not fetch running tasks''))"
proof -
  have h: "has_unnamed_task example_state"
    by (simp add: has_unnamed_task_def example_state_def)
  have u: "json_Unmarshal example_gc_env (MesosStateURL mesos_args) = Inr example_state"
    by (simp add: example_gc_env_def)
  show ?thesis
    using h GC_aborts_on_unnamed_mesos_task[OF u h, of mesos_args]
    by (simp add: example_gc_env_def mesos_args_def kubernetes_args_def)
qed

text \<open>
  Claim C10. With a source of truth that is neither \<open>kubernetes\<close> nor \<open>mesos\<close>, a GC
  cycle makes no call to the remote service (nor to the local teardown) and returns an
  error; when the node's identity was obtained, that error is the unknown-source
  error, wrapped.
\<close>

theorem GC_unknown_source_of_truth:
  assumes "SourceOfTruth args \<noteq> ''kubernetes''" and "SourceOfTruth args \<noteq> ''mesos''"
  shows "fst (GC env args) = [] \<and> snd (GC env args) \<noteq> None \<and>
         (\<forall>instanceIdentity. GetIdentity env = Inr instanceIdentity \<longrightarrow>
            snd (GC env args) =
              Some (Wrap (SourceOfTruthUnknown (SourceOfTruth args))
                      ''Could not fetch running tasks''))"
  using assms by (auto simp: GC_def runningTaskIDs_def split: sum.splits)

theorem GC_unknown_source_of_truth_witness:
  "GC example_gc_env unknown_args =
     ([], Some (Wrap (SourceOfTruthUnknown ''nomad'') ''Could not fetch running tasks''))"
  using GC_unknown_source_of_truth[of unknown_args example_gc_env]
  by (simp add: unknown_args_def kubernetes_args_def example_gc_env_def prod_eq_iff)

subsection \<open>The loop over the stale assignments\<close>

lemma removeAssignments_single:
  "removeAssignments env [t] (calls, result) =
     (calls @ fst (removeAssignments env [t] ([], [])),
      result @ snd (removeAssignments env [t] ([], [])))"
  by (simp add: Let_def split: sum.splits option.splits)

lemma removeAssignments_step:
  "removeAssignments env (t # ts) acc = removeAssignments env ts (removeAssignments env [t] acc)"
  by (cases acc) (simp add: Let_def split: sum.splits option.splits)

lemma removeAssignments_concat:
  "removeAssignments env ts (calls, result) =
     (calls @ concat (map (\<lambda>t. fst (removeAssignments env [t] ([], []))) ts),
      result @ concat (map (\<lambda>t. snd (removeAssignments env [t] ([], []))) ts))"
proof (induction ts arbitrary: calls result)
  case Nil show ?case by simp
next
  case (Cons t ts)
  have "removeAssignments env (t # ts) (calls, result) =
          removeAssignments env ts
            (calls @ fst (removeAssignments env [t] ([], [])),
             result @ snd (removeAssignments env [t] ([], [])))"
    by (simp only: removeAssignments_step[of env t ts] removeAssignments_single[of env t calls result])
  then show ?case by (simp only: Cons.IH list.map concat.simps append_assoc)
qed

lemma item_ok_single:
  assumes "item_ok env t"
  shows "\<exists>assignment. GetAssignment env t = Inr assignment \<and>
           removeAssignments env [t] ([], []) =
             ([CallGetAssignment t,
               CallTeardownNetwork (AssignmentToAllocation env assignment),
               CallUnassignIPV3 t], [])"
  using assms by (auto simp: item_ok_def Let_def split: sum.splits option.splits)

lemma item_failed_single:
  assumes "\<not> item_ok env t"
  shows "\<exists>err msg. snd (removeAssignments env [t] ([], [])) = [Wrap err (msg @ t)]"
  using assms by (auto simp: item_ok_def Let_def split: sum.splits option.splits)

lemma item_single_errors: "snd (removeAssignments env [t] ([], [])) = [] \<longleftrightarrow> item_ok env t"
  using item_ok_single[of env t] item_failed_single[of env t]
  by (cases "item_ok env t") (auto simp del: removeAssignments.simps)

lemma concat_map_Nil: "concat (map f xs) = [] \<longleftrightarrow> (\<forall>x \<in> set xs. f x = [])"
  by (induction xs) auto

lemma GC_reaches_loop:
  assumes "GetIdentity env = Inr instanceIdentity"
    and "runningTaskIDs env args = Inr tasks"
    and "req = \<lparr>InstanceIdentity = instanceIdentity, Soft = True, RunningTaskIDs = tasks\<rparr>"
    and "GCV3 env req = Inr removed"
  shows "GC env args =
      (CallGCV3 req # concat (map (\<lambda>t. fst (removeAssignments env [t] ([], []))) removed),
       ErrorOrNil (concat (map (\<lambda>t. snd (removeAssignments env [t] ([], []))) removed)))"
  using assms removeAssignments_concat[of env removed "[CallGCV3 req]" "[]"]
  by (simp add: GC_def del: removeAssignments.simps)

text \<open>
  Claim C5. In a cycle that obtained the identity, the running tasks and the list
  \<open>removed\<close> of stale assignments: the calls made are the \<open>GCV3\<close> call followed, for each
  task ID of the list in order, by the calls that task ID gets when it is processed
  alone, and the errors aggregated are, in order, those each task ID gets when it is
  processed alone; so a failure for one task ID changes nothing for the others. What a
  task ID gets alone: a failed fetch gives the fetch call and its error, wrapped as
  "Unable to get assignment" with the task ID, and no further call; a failed teardown
  gives the fetch and the teardown call and its error, wrapped as "Unable to tear down
  network" with the task ID, and no unassign; a failed unassign gives the three calls
  and its error, wrapped as "Unable to unassign from vpc service" with the task ID;
  three successful steps give the three calls (fetch, teardown of its allocation,
  unassign), which are among the calls of the cycle, and no error. The cycle returns
  no error exactly when all three steps succeeded for every task ID, and otherwise the
  multi-error of the errors; with an empty list it makes no call but \<open>GCV3\<close> and
  returns no error.
\<close>

theorem GC_best_effort_per_item:
  assumes "GetIdentity env = Inr instanceIdentity"
    and "runningTaskIDs env args = Inr tasks"
    and "req = \<lparr>InstanceIdentity = instanceIdentity, Soft = True, RunningTaskIDs = tasks\<rparr>"
    and "GCV3 env req = Inr removed"
  shows "fst (GC env args) =
           CallGCV3 req # concat (map (\<lambda>t. fst (removeAssignments env [t] ([], []))) removed) \<and>
         snd (GC env args) =
           ErrorOrNil (concat (map (\<lambda>t. snd (removeAssignments env [t] ([], []))) removed)) \<and>
         (\<forall>t \<in> set removed.
            removeAssignments env [t] ([], []) =
              (case GetAssignment env t of
                 Inl err \<Rightarrow>
                   ([CallGetAssignment t], [Wrap err (''Unable to get assignment '' @ t)])
               | Inr assignment \<Rightarrow>
                   (case TeardownNetwork env (AssignmentToAllocation env assignment) of
                      Some err \<Rightarrow>
                        ([CallGetAssignment t,
                          CallTeardownNetwork (AssignmentToAllocation env assignment)],
                         [Wrap err (''Unable to tear down network '' @ t)])
                    | None \<Rightarrow>
                        (case UnassignIPV3 env t of
                           Some err \<Rightarrow>
                             ([CallGetAssignment t,
                               CallTeardownNetwork (AssignmentToAllocation env assignment),
                               CallUnassignIPV3 t],
                              [Wrap err (''Unable to unassign from vpc service '' @ t)])
                         | None \<Rightarrow>
                             ([CallGetAssignment t,
                               CallTeardownNetwork (AssignmentToAllocation env assignment),
                               CallUnassignIPV3 t], []))))) \<and>
         (snd (GC env args) = None \<longleftrightarrow> (\<forall>t \<in> set removed. item_ok env t)) \<and>
         (\<forall>t \<in> set removed.
            if item_ok env t
            then (\<exists>assignment. GetAssignment env t = Inr assignment \<and>
                   removeAssignments env [t] ([], []) =
                     ([CallGetAssignment t,
                       CallTeardownNetwork (AssignmentToAllocation env assignment),
                       CallUnassignIPV3 t], []) \<and>
                   CallTeardownNetwork (AssignmentToAllocation env assignment)
                     \<in> set (fst (GC env args)) \<and>
                   CallUnassignIPV3 t \<in> set (fst (GC env args)))
            else (\<exists>err msg. snd (removeAssignments env [t] ([], [])) = [Wrap err (msg @ t)])) \<and>
         (removed = [] \<longrightarrow> GC env args = ([CallGCV3 req], None))"
proof (intro conjI)
  note gc = GC_reaches_loop[OF assms]
  show "fst (GC env args) =
           CallGCV3 req # concat (map (\<lambda>t. fst (removeAssignments env [t] ([], []))) removed)"
    by (simp only: gc fst_conv)
  show "snd (GC env args) =
           ErrorOrNil (concat (map (\<lambda>t. snd (removeAssignments env [t] ([], []))) removed))"
    by (simp only: gc snd_conv)
  show "(\<forall>t \<in> set removed.
      removeAssignments env [t] ([], []) =
        (case GetAssignment env t of
           Inl err \<Rightarrow>
             ([CallGetAssignment t], [Wrap err (''Unable to get assignment '' @ t)])
         | Inr assignment \<Rightarrow>
             (case TeardownNetwork env (AssignmentToAllocation env assignment) of
                Some err \<Rightarrow>
                  ([CallGetAssignment t,
                    CallTeardownNetwork (AssignmentToAllocation env assignment)],
                   [Wrap err (''Unable to tear down network '' @ t)])
              | None \<Rightarrow>
                  (case UnassignIPV3 env t of
                     Some err \<Rightarrow>
                       ([CallGetAssignment t,
                         CallTeardownNetwork (AssignmentToAllocation env assignment),
                         CallUnassignIPV3 t],
                        [Wrap err (''Unable to unassign from vpc service '' @ t)])
                   | None \<Rightarrow>
                       ([CallGetAssignment t,
                         CallTeardownNetwork (AssignmentToAllocation env assignment),
                         CallUnassignIPV3 t], [])))))"
    by (simp add: Let_def split: sum.splits option.splits)
  show "snd (GC env args) = None \<longleftrightarrow> (\<forall>t \<in> set removed. item_ok env t)"
    by (simp only: gc snd_conv ErrorOrNil_def concat_map_Nil item_single_errors) simp
  show "\<forall>t \<in> set removed.
            if item_ok env t
            then (\<exists>assignment. GetAssignment env t = Inr assignment \<and>
                   removeAssignments env [t] ([], []) =
                     ([CallGetAssignment t,
                       CallTeardownNetwork (AssignmentToAllocation env assignment),
                       CallUnassignIPV3 t], []) \<and>
                   CallTeardownNetwork (AssignmentToAllocation env assignment)
                     \<in> set (fst (GC env args)) \<and>
                   CallUnassignIPV3 t \<in> set (fst (GC env args)))
            else (\<exists>err msg. snd (removeAssignments env [t] ([], [])) = [Wrap err (msg @ t)])"
  proof
    fix t assume t: "t \<in> set removed"
    have sub: "set (fst (removeAssignments env [t] ([], []))) \<subseteq> set (fst (GC env args))"
      using t by (auto simp only: gc fst_conv set_simps set_concat set_map)
    show "if item_ok env t
            then (\<exists>assignment. GetAssignment env t = Inr assignment \<and>
                   removeAssignments env [t] ([], []) =
                     ([CallGetAssignment t,
                       CallTeardownNetwork (AssignmentToAllocation env assignment),
                       CallUnassignIPV3 t], []) \<and>
                   CallTeardownNetwork (AssignmentToAllocation env assignment)
                     \<in> set (fst (GC env args)) \<and>
                   CallUnassignIPV3 t \<in> set (fst (GC env args)))
            else (\<exists>err msg. snd (removeAssignments env [t] ([], [])) = [Wrap err (msg @ t)])"
    proof (cases "item_ok env t")
      case True
      from item_ok_single[OF True] obtain a where a: "GetAssignment env t = Inr a"
        "removeAssignments env [t] ([], []) =
           ([CallGetAssignment t, CallTeardownNetwork (AssignmentToAllocation env a),
             CallUnassignIPV3 t], [])" by blast
      have "CallTeardownNetwork (AssignmentToAllocation env a) \<in> set (fst (GC env args))"
        "CallUnassignIPV3 t \<in> set (fst (GC env args))"
        using sub by (simp_all only: a(2) fst_conv) simp_all
      then show ?thesis using True a by (simp del: removeAssignments.simps)
    next
      case False
      then show ?thesis using item_failed_single[OF False]
        by (simp del: removeAssignments.simps)
    qed
  qed
  show "removed = [] \<longrightarrow> GC env args = ([CallGCV3 req], None)"
    by (simp add: gc ErrorOrNil_def)
qed

theorem GC_best_effort_per_item_witness:
  "\<not> item_ok example_gc_env ''C'' \<and> item_ok example_gc_env ''D'' \<and>
   GC example_gc_env kubernetes_args =
     ([CallGCV3 \<lparr>InstanceIdentity = ''i-0123'', Soft = True, RunningTaskIDs = [''A'', ''B'']\<rparr>,
       CallGetAssignment ''C'', CallTeardownNetwork ''C'',
       CallGetAssignment ''D'', CallTeardownNetwork ''D'', CallUnassignIPV3 ''D'',
       CallGetAssignment ''E'',
       CallGetAssignment ''F'', CallTeardownNetwork ''F'', CallUnassignIPV3 ''F''],
      Some (MultiError
        [Wrap (Opaque ''busy'') ''Unable to tear down network C'',
         Wrap (Opaque ''no such task'') ''Unable to get assignment E'',
         Wrap (Opaque ''unavailable'') ''Unable to unassign from vpc service F'']))"
proof -
  have tasks: "runningTaskIDs example_gc_env kubernetes_args = Inr [''A'', ''B'']"
    by (simp add: runningTaskIDs_def kubernetesTasks_def parseKubernetesTasksBody_def
        example_gc_env_def kubernetes_args_def)
  have ident: "GetIdentity example_gc_env = Inr ''i-0123''"
    by (simp add: example_gc_env_def)
  have removed:
    "GCV3 example_gc_env
       \<lparr>InstanceIdentity = ''i-0123'', Soft = True, RunningTaskIDs = [''A'', ''B'']\<rparr> =
     Inr [''C'', ''D'', ''E'', ''F'']"
    by (simp add: example_gc_env_def)
  have answers:
    "GetAssignment example_gc_env ''C'' = Inr ''C''"
    "GetAssignment example_gc_env ''D'' = Inr ''D''"
    "GetAssignment example_gc_env ''E'' = Inl (Opaque ''no such task'')"
    "GetAssignment example_gc_env ''F'' = Inr ''F''"
    "AssignmentToAllocation example_gc_env ''C'' = ''C''"
    "AssignmentToAllocation example_gc_env ''D'' = ''D''"
    "AssignmentToAllocation example_gc_env ''F'' = ''F''"
    "TeardownNetwork example_gc_env ''C'' = Some (Opaque ''busy'')"
    "TeardownNetwork example_gc_env ''D'' = None"
    "TeardownNetwork example_gc_env ''F'' = None"
    "UnassignIPV3 example_gc_env ''D'' = None"
    "UnassignIPV3 example_gc_env ''F'' = Some (Opaque ''unavailable'')"
    by (simp_all add: example_gc_env_def)
  have ok: "\<not> item_ok example_gc_env ''C''" "item_ok example_gc_env ''D''"
    by (simp_all add: item_ok_def answers)
  note cycle_facts = GC_best_effort_per_item[OF ident tasks refl removed]
  have items:
    "removeAssignments example_gc_env [''C''] ([], []) =
       ([CallGetAssignment ''C'', CallTeardownNetwork ''C''],
        [Wrap (Opaque ''busy'') ''Unable to tear down network C''])"
    "removeAssignments example_gc_env [''D''] ([], []) =
       ([CallGetAssignment ''D'', CallTeardownNetwork ''D'', CallUnassignIPV3 ''D''], [])"
    "removeAssignments example_gc_env [''E''] ([], []) =
       ([CallGetAssignment ''E''], [Wrap (Opaque ''no such task'') ''Unable to get assignment E''])"
    "removeAssignments example_gc_env [''F''] ([], []) =
       ([CallGetAssignment ''F'', CallTeardownNetwork ''F'', CallUnassignIPV3 ''F''],
        [Wrap (Opaque ''unavailable'') ''Unable to unassign from vpc service F''])"
    using cycle_facts by (simp_all add: answers del: removeAssignments.simps)
  show ?thesis
    using cycle_facts ok
    by (simp add: items ErrorOrNil_def prod_eq_iff del: removeAssignments.simps)
qed

end
